theory Spec2Isabelle
  imports Main "HOL-Library.AList"
begin

section \<open>Values\<close>

text \<open>
  The nodes handled by \<^verbatim>\<open>src/packages/content/src/raw/index.ts\<close> are JavaScript values
  decoded from dag-cbor blocks: null, booleans, integers, strings, arrays, objects keyed by
  strings, and links (CIDs). \<open>JUndefined\<close> is JavaScript's \<^verbatim>\<open>undefined\<close>; inside an
  array it also stands for a hole left by \<^verbatim>\<open>delete\<close> (a hole reads as \<^verbatim>\<open>undefined\<close>,
  \<^verbatim>\<open>filter\<close> skips it, and dag-cbor refuses to encode it). \<open>JNum n\<close> is the integer
  \<open>n\<close>, held as a number, or as a BigInt where a number would not be exact. Floats and
  byte strings are not modelled, and strings are taken to be ASCII.

  \<open>JHost name\<close> is an object that is not data: a function or a prototype object of the
  JavaScript engine or of a library, such as the function found under \<^verbatim>\<open>toString\<close> in
  every object. The code meets one when a path segment names a built-in property.

  A CID is the hash of a block's canonical encoding. \<open>CID v\<close> is the identifier of the
  block that decodes to \<open>v\<close>: equal contents have equal CIDs, and hash collisions are not
  modelled. The fields of an object are kept in insertion order; the key order of the
  dag-cbor encoding is not modelled.
\<close>

datatype jsval =
    JUndefined
  | JNull
  | JBool bool
  | JNum int
  | JStr string
  | JArr "jsval list"
  | JObj "(string \<times> jsval) list"
  | JLink cid
  | JHost string
and cid = CID jsval

fun block_of :: "cid \<Rightarrow> jsval" where
  "block_of (CID v) = v"

text \<open>Truthiness, as \<^verbatim>\<open>if (v)\<close>, \<^verbatim>\<open>!v\<close> and \<^verbatim>\<open>filter((v) => v)\<close> test it.\<close>

fun js_truthy :: "jsval \<Rightarrow> bool" where
  "js_truthy JUndefined = False"
| "js_truthy JNull = False"
| "js_truthy (JBool b) = b"
| "js_truthy (JNum n) = (n \<noteq> 0)"
| "js_truthy (JStr s) = (s \<noteq> [])"
| "js_truthy (JArr xs) = True"
| "js_truthy (JObj kvs) = True"
| "js_truthy (JLink c) = True"
| "js_truthy (JHost h) = True"

text \<open>\<^verbatim>\<open>data == null\<close> holds of \<^verbatim>\<open>null\<close> and \<^verbatim>\<open>undefined\<close> only.\<close>

definition is_nullish :: "jsval \<Rightarrow> bool" where
  "is_nullish v = (v = JNull \<or> v = JUndefined)"

text \<open>
  The values of the IPLD data model that dag-cbor encodes and decodes to themselves:
  there is no \<^verbatim>\<open>undefined\<close> and no host object among them, and an integer has at most
  64 bits besides its sign. A field named \<^verbatim>\<open>__proto__\<close> is left out as well: a decoder
  that builds an object by assigning its fields runs the setter of the prototype for
  this name and stores nothing. A link is encodable whatever it points to.
\<close>

fun encodable :: "jsval \<Rightarrow> bool" where
  "encodable JUndefined = False"
| "encodable (JNum n) = (- (2 ^ 64) \<le> n \<and> n < 2 ^ 64)"
| "encodable (JArr xs) = list_all encodable xs"
| "encodable (JObj kvs) = list_all (\<lambda>kv. fst kv \<noteq> ''__proto__'' \<and> encodable (snd kv)) kvs"
| "encodable (JHost h) = False"
| "encodable v = True"

text \<open>
  The values that the encoder refuses whatever else they hold: those with an
  \<^verbatim>\<open>undefined\<close> or an integer of more than 64 bits in them.
\<close>

fun refused :: "jsval \<Rightarrow> bool" where
  "refused JUndefined = True"
| "refused (JNum n) = (n < - (2 ^ 64) \<or> 2 ^ 64 \<le> n)"
| "refused (JArr xs) = list_ex refused xs"
| "refused (JObj kvs) = list_ex (\<lambda>kv. refused (snd kv)) kvs"
| "refused v = False"

datatype error =
    InvalidLeafData       \<comment> \<open>TypeError "Invalid data form, does not match leafSchema"\<close>
  | InvalidParentData     \<comment> \<open>TypeError "Invalid data form, does not match parentSchema"\<close>
  | NotConfigured         \<comment> \<open>Error "Web3Storage not configured"\<close>
  | UploadFailed          \<comment> \<open>the error of \<^verbatim>\<open>CAR.encode\<close> or \<^verbatim>\<open>uploadCAR\<close>, re-thrown\<close>
  | JsTypeError           \<comment> \<open>the engine's TypeError on a property access that is not allowed\<close>
  | JsRangeError          \<comment> \<open>the engine's RangeError, as for an invalid array length\<close>
  | BlockStoreError       \<comment> \<open>any failure of the block store (block missing, bad path, encode)\<close>
  | InvalidCid            \<comment> \<open>\<^verbatim>\<open>CID.parse\<close> failed\<close>

section \<open>Strings\<close>

text \<open>\<^verbatim>\<open>s.split("/")\<close>: never empty; \<^verbatim>\<open>"".split("/")\<close> is \<^verbatim>\<open>[""]\<close>.\<close>

fun js_split :: "char \<Rightarrow> string \<Rightarrow> string list" where
  "js_split c [] = [[]]"
| "js_split c (x # xs) =
     (if x = c then [] # js_split c xs
      else (x # hd (js_split c xs)) # tl (js_split c xs))"

text \<open>\<^verbatim>\<open>xs.join("/")\<close>.\<close>

fun js_join :: "string \<Rightarrow> string list \<Rightarrow> string" where
  "js_join sep [] = []"
| "js_join sep [x] = x"
| "js_join sep (x # y # ys) = x @ sep @ js_join sep (y # ys)"

text \<open>
  \<^verbatim>\<open>s.replace(pat, "")\<close> with a string pattern: the first occurrence of \<open>pat\<close> is
  removed, the others stay; the empty pattern matches at the start and removes nothing.
\<close>

fun js_replace :: "string \<Rightarrow> string \<Rightarrow> string" where
  "js_replace pat [] = []"
| "js_replace pat (x # xs) =
     (if take (length pat) (x # xs) = pat then drop (length pat) (x # xs)
      else x # js_replace pat xs)"

text \<open>\<^verbatim>\<open>s.toLowerCase()\<close>, on the ASCII letters.\<close>

definition lower_char :: "char \<Rightarrow> char" where
  "lower_char c =
     (if 65 \<le> (of_char c :: nat) \<and> (of_char c :: nat) \<le> 90
      then char_of ((of_char c :: nat) + 32) else c)"

definition toLowerCase :: "string \<Rightarrow> string" where
  "toLowerCase s = map lower_char s"

section \<open>Property access\<close>

text \<open>
  An array index is a canonical decimal numeral below \<open>2^32 - 1\<close>: \<^verbatim>\<open>"0"\<close>, or digits
  that do not start with \<^verbatim>\<open>0\<close>. Any other key names an ordinary property.
\<close>

definition is_digit :: "char \<Rightarrow> bool" where
  "is_digit c = (48 \<le> (of_char c :: nat) \<and> (of_char c :: nat) \<le> 57)"

definition digits_value :: "string \<Rightarrow> nat" where
  "digits_value s = foldl (\<lambda>n c. 10 * n + (of_char c - 48)) 0 s"

definition array_index :: "string \<Rightarrow> nat option" where
  "array_index k =
     (if k \<noteq> [] \<and> list_all is_digit k \<and> (hd k = CHR ''0'' \<longrightarrow> length k = 1)
         \<and> digits_value k < 4294967295
      then Some (digits_value k) else None)"

text \<open>
  The properties stored in a node: the fields of an object and the elements of an
  array. This is what the block holds, what \<^verbatim>\<open>node[key]\<close> finds first, and what an
  assignment to an existing key overwrites. A hole is not a property.
\<close>

fun own_prop :: "jsval \<Rightarrow> string \<Rightarrow> jsval option" where
  "own_prop (JObj kvs) k = map_of kvs k"
| "own_prop (JArr xs) k =
     (case array_index k of
        Some i \<Rightarrow> (if i < length xs \<and> xs ! i \<noteq> JUndefined then Some (xs ! i) else None)
      | None \<Rightarrow> None)"
| "own_prop v k = None"

text \<open>
  The properties that an array and a string have by their kind: the \<^verbatim>\<open>length\<close>, and
  the characters of a string. They can be read; they cannot be deleted, and those of a
  string cannot be assigned to.
\<close>

fun exotic_prop :: "jsval \<Rightarrow> string \<Rightarrow> jsval option" where
  "exotic_prop (JArr xs) k = (if k = ''length'' then Some (JNum (int (length xs))) else None)"
| "exotic_prop (JStr s) k =
     (if k = ''length'' then Some (JNum (int (length s)))
      else (case array_index k of
              Some i \<Rightarrow> (if i < length s then Some (JStr [s ! i]) else None)
            | None \<Rightarrow> None))"
| "exotic_prop v k = None"

text \<open>
  Every value also has properties that it inherits from the prototypes:
  \<^verbatim>\<open>constructor\<close>, \<^verbatim>\<open>toString\<close>, the methods of arrays and strings, and so on. A CID
  object has fields and methods of its own class. They belong to the JavaScript engine
  and to the libraries, their names depend on the versions of both, and none of them is
  defined in this repository, so they are a parameter of the model: \<open>builtin e node k\<close>
  says that \<open>k\<close> names such a property of \<open>node\<close>, and \<open>builtin_get\<close>, \<open>builtin_set\<close> and
  \<open>builtin_delete\<close> say what reading it, assigning to it and deleting it do (for the
  last two the result is the node as it is afterwards). Every property of a CID object
  and of a host object is left to the engine. What an assignment changes in a shared
  built-in object, or in the prototype of a node, for later accesses is not tracked.
  \<open>encode_other\<close> says what the codec stores for a value that is outside the data model
  without being refused (it holds a host object or a field named \<^verbatim>\<open>__proto__\<close>), if it
  accepts the value at all.
\<close>

record engine =
  builtin :: "jsval \<Rightarrow> string \<Rightarrow> bool"
  builtin_get :: "jsval \<Rightarrow> string \<Rightarrow> error + jsval"
  builtin_set :: "jsval \<Rightarrow> string \<Rightarrow> jsval \<Rightarrow> error + jsval"
  builtin_delete :: "jsval \<Rightarrow> string \<Rightarrow> error + jsval"
  encode_other :: "jsval \<Rightarrow> jsval option"

text \<open>
  The names that do not name a plain field of a node: \<^verbatim>\<open>__proto__\<close>, which on every
  engine is the accessor of \<^verbatim>\<open>Object.prototype\<close> that reads and sets the prototype, the
  properties a node has by its kind, and the ones of the engine.
\<close>

definition built_in :: "engine \<Rightarrow> jsval \<Rightarrow> string \<Rightarrow> bool" where
  "built_in e node k = (k = ''__proto__'' \<or> exotic_prop node k \<noteq> None \<or> builtin e node k)"

text \<open>
  Reading \<^verbatim>\<open>node[key]\<close>: a TypeError on \<^verbatim>\<open>undefined\<close> and \<^verbatim>\<open>null\<close>; otherwise the stored
  property, or else the one the node has by its kind, or else the inherited one, or
  else \<^verbatim>\<open>undefined\<close>.
\<close>

definition js_prop :: "engine \<Rightarrow> jsval \<Rightarrow> string \<Rightarrow> error + jsval" where
  "js_prop e node k =
     (if is_nullish node then Inl JsTypeError
      else (case own_prop node k of
              Some v \<Rightarrow> Inr v
            | None \<Rightarrow>
                (case exotic_prop node k of
                   Some v \<Rightarrow> Inr v
                 | None \<Rightarrow>
                     (case node of
                        JLink c \<Rightarrow> builtin_get e node k
                      | JHost h \<Rightarrow> builtin_get e node k
                      | _ \<Rightarrow>
                          (if k = ''__proto__'' \<or> builtin e node k then builtin_get e node k
                           else Inr JUndefined)))))"

text \<open>
  Assigning a number to the \<^verbatim>\<open>length\<close> of an array cuts the array or extends it with
  holes. Any other value is first converted to a number by the engine.
\<close>

definition set_length :: "engine \<Rightarrow> jsval list \<Rightarrow> jsval \<Rightarrow> error + jsval" where
  "set_length e xs v =
     (case v of
        JNum n \<Rightarrow>
          (if 0 \<le> n \<and> n < 2 ^ 32
           then Inr (JArr (take (nat n) xs @ replicate (nat n - length xs) JUndefined))
           else builtin_set e (JArr xs) ''length'' v)
      | _ \<Rightarrow> builtin_set e (JArr xs) ''length'' v)"

text \<open>
  The assignment \<^verbatim>\<open>node[key] = data\<close>, returning the node as it is afterwards (the source
  mutates it in place). A stored field is overwritten. Otherwise \<^verbatim>\<open>__proto__\<close> runs the
  setter of the prototype and stores nothing, an inherited name is the engine's
  business, and any other key becomes a new field of an object. On an array, an index
  past the end extends the array with holes; a key that is neither an index nor built
  in creates a named property, which neither \<^verbatim>\<open>filter\<close> nor the encoder sees, so the
  elements stay as they are. The code is strict (an ES module, a class body), so on a
  primitive every assignment is a TypeError, except to \<^verbatim>\<open>__proto__\<close>, whose setter
  ignores a primitive.
\<close>

fun js_set :: "engine \<Rightarrow> jsval \<Rightarrow> string \<Rightarrow> jsval \<Rightarrow> error + jsval" where
  "js_set e (JObj kvs) k v =
     (if map_of kvs k \<noteq> None then Inr (JObj (AList.update k v kvs))
      else if k = ''__proto__'' then Inr (JObj kvs)
      else if builtin e (JObj kvs) k then builtin_set e (JObj kvs) k v
      else Inr (JObj (AList.update k v kvs)))"
| "js_set e (JArr xs) k v =
     (case array_index k of
        Some i \<Rightarrow>
          (if i < length xs then Inr (JArr (xs[i := v]))
           else Inr (JArr (xs @ replicate (i - length xs) JUndefined @ [v])))
      | None \<Rightarrow>
          (if k = ''__proto__'' then Inr (JArr xs)
           else if k = ''length'' then set_length e xs v
           else if builtin e (JArr xs) k then builtin_set e (JArr xs) k v
           else Inr (JArr xs)))"
| "js_set e (JLink c) k v = builtin_set e (JLink c) k v"
| "js_set e (JHost h) k v = builtin_set e (JHost h) k v"
| "js_set e JUndefined k v = Inl JsTypeError"
| "js_set e JNull k v = Inl JsTypeError"
| "js_set e node k v = (if k = ''__proto__'' then Inr node else Inl JsTypeError)"

text \<open>
  \<^verbatim>\<open>delete node[key]\<close> in strict code. It removes a stored field and leaves inherited
  properties alone; on an array it leaves a hole and keeps the length. Deleting a
  property that a node has by its kind is a TypeError. A number or a boolean has no
  property of its own, and on \<^verbatim>\<open>undefined\<close> and \<^verbatim>\<open>null\<close> the access itself is a
  TypeError.
\<close>

fun js_delete :: "engine \<Rightarrow> jsval \<Rightarrow> string \<Rightarrow> error + jsval" where
  "js_delete e (JObj kvs) k = Inr (JObj (AList.delete k kvs))"
| "js_delete e (JArr xs) k =
     (case array_index k of
        Some i \<Rightarrow> (if i < length xs then Inr (JArr (xs[i := JUndefined])) else Inr (JArr xs))
      | None \<Rightarrow> (if exotic_prop (JArr xs) k \<noteq> None then Inl JsTypeError else Inr (JArr xs)))"
| "js_delete e (JStr s) k =
     (if exotic_prop (JStr s) k \<noteq> None then Inl JsTypeError else Inr (JStr s))"
| "js_delete e (JLink c) k = builtin_delete e (JLink c) k"
| "js_delete e (JHost h) k = builtin_delete e (JHost h) k"
| "js_delete e JUndefined k = Inl JsTypeError"
| "js_delete e JNull k = Inl JsTypeError"
| "js_delete e node k = Inr node"

section \<open>The node editor\<close>

lemma js_split_nonempty: "js_split c p \<noteq> []"
  by (cases p) auto

lemma js_join_split: "js_join [c] (js_split c p) = p"
proof (induction p)
  case Nil
  then show ?case by simp
next
  case (Cons x p)
  obtain s ss where sp: "js_split c p = s # ss"
    by (cases "js_split c p") (cases p, auto split: if_splits)
  show ?case
  proof (cases "x = c")
    case True
    with Cons sp show ?thesis by simp
  next
    case False
    with Cons sp show ?thesis by (cases ss) auto
  qed
qed

lemma js_join_drop2_shorter:
  "2 < length xs \<Longrightarrow> length (js_join [c] (drop 2 xs)) < length (js_join [c] xs)"
proof -
  assume "2 < length xs"
  then obtain a b d ds where "xs = a # b # d # ds"
    by (cases xs; cases "tl xs"; cases "tl (tl xs)") auto
  then show ?thesis by simp
qed

text \<open>
  \<^verbatim>\<open>putInnerPath(node, path, data)\<close>, lines 195 to 228, on the engine \<open>e\<close>. The
  recursion is on the path with its first two segments removed and the rest joined
  again.
\<close>

function putInnerPath :: "engine \<Rightarrow> jsval \<Rightarrow> string \<Rightarrow> jsval \<Rightarrow> error + jsval" where
  "putInnerPath e node path data =
     (let pathSegments = js_split CHR ''/'' path in
      if length pathSegments = 2 \<and> pathSegments ! 1 = [] then Inr node
      else if length pathSegments = 1 then
        (if is_nullish data then js_delete e node (pathSegments ! 0)
         else js_set e node (pathSegments ! 0) data)
      else if length pathSegments = 2 then
        (if is_nullish data then js_delete e node (pathSegments ! 1)
         else js_set e node (pathSegments ! 1) data)
      else
        (case js_prop e node (pathSegments ! 1) of
           Inl err \<Rightarrow> Inl err
         | Inr child \<Rightarrow>
             (case putInnerPath e child (js_join ''/'' (drop 2 pathSegments)) data of
                Inl err \<Rightarrow> Inl err
              | Inr child' \<Rightarrow> js_set e node (pathSegments ! 1) child')))"
  by pat_completeness auto
termination
proof (relation "measure (\<lambda>(e, node, path, data). length path)", goal_cases)
  case 1
  then show ?case by simp
next
  case (2 e node path data pathSegments child)
  have "length (js_split CHR ''/'' path) \<noteq> 0"
    by (simp add: js_split_nonempty)
  moreover from 2 have "length (js_split CHR ''/'' path) \<noteq> 1"
    and "length (js_split CHR ''/'' path) \<noteq> 2"
    by auto
  ultimately have "2 < length (js_split CHR ''/'' path)"
    by arith
  then have "length (js_join ''/'' (drop 2 (js_split CHR ''/'' path)))
      < length (js_join ''/'' (js_split CHR ''/'' path))"
    by (rule js_join_drop2_shorter)
  with 2 show ?case by (simp add: js_join_split)
qed

declare putInnerPath.simps [simp del]


section \<open>The collaborators\<close>

datatype level = LogDebug | LogInfo | LogWarn | LogError

text \<open>The calls made on the collaborators, in the order they are made.\<close>

datatype event =
    DagResolve cid string       \<comment> \<open>\<^verbatim>\<open>ipfs.dag.resolve\<close> of a root and a path\<close>
  | DagGet cid string           \<comment> \<open>\<^verbatim>\<open>ipfs.dag.get\<close> of a CID, with a path or \<^verbatim>\<open>""\<close>\<close>
  | DagPut jsval                \<comment> \<open>\<^verbatim>\<open>ipfs.dag.put\<close> of a value\<close>
  | BlockPut jsval              \<comment> \<open>\<^verbatim>\<open>ipfs.block.put\<close> of the bytes of a value\<close>
  | GatewayGet string cid string  \<comment> \<open>\<^verbatim>\<open>axios.get\<close> on the gateway host\<close>
  | TileQuery string string     \<comment> \<open>\<^verbatim>\<open>TileDocument.deterministic\<close> for a controller and a tag\<close>
  | TileUpdate string string jsval  \<comment> \<open>\<^verbatim>\<open>doc.update\<close> with the new content\<close>
  | CarUpload "cid list"        \<comment> \<open>\<^verbatim>\<open>uploadCAR\<close> of the blocks\<close>
  | Console level               \<comment> \<open>\<^verbatim>\<open>console.debug\<close>, \<^verbatim>\<open>info\<close>, \<^verbatim>\<open>warn\<close>, \<^verbatim>\<open>error\<close>\<close>

text \<open>
  The fields of the class \<^verbatim>\<open>API\<close> that are configuration, and the services it calls that
  keep no state of their own here: the schema transforms of \<^verbatim>\<open>create(schema, name)\<close>
  (\<^verbatim>\<open>undefined\<close> is the failure of \<^verbatim>\<open>toRepresentation\<close>; \<^verbatim>\<open>create\<close> itself is taken to
  succeed), the gateway (\<open>None\<close>: the request or the decoding of its answer fails), the
  upload of an archive (\<open>False\<close>: it fails), and the text form of a CID. With them go
  the engine that runs the code, and the answer of the block store's resolver to a
  path segment that the tree does not have: the remainder (\<open>resolve_strict\<close> is
  \<open>False\<close>), or an error (\<open>True\<close>).
\<close>

record api =
  ipfsGatewayHost :: "string option"
  w3InvocationConfig :: "unit option"
  toRepresentation :: "string \<Rightarrow> jsval \<Rightarrow> jsval"
  toTyped :: "string \<Rightarrow> jsval \<Rightarrow> jsval"
  gateway_fetch :: "string \<Rightarrow> cid \<Rightarrow> string \<Rightarrow> jsval option"
  uploadCAR :: "cid list \<Rightarrow> bool"
  cid_parse :: "jsval \<Rightarrow> cid option"
  cid_text :: "cid \<Rightarrow> string"
  js :: engine
  resolve_strict :: bool

text \<open>
  What changes: the local block store (the CIDs whose blocks it holds), the documents of
  the pointer service (the content bound to a controller and a tag; a document that was
  never written has the empty content), and the calls made so far.
\<close>

record world =
  blocks :: "cid set"
  docs :: "string \<Rightarrow> string \<Rightarrow> (string \<times> jsval) list"
  trace :: "event list"

definition emit :: "event \<Rightarrow> world \<Rightarrow> world" where
  "emit e w = w\<lparr>trace := trace w @ [e]\<rparr>"

text \<open>An optional string that is set and not empty: \<^verbatim>\<open>if (opts?.leafSchema)\<close>.\<close>

definition configured :: "string option \<Rightarrow> bool" where
  "configured x = (case x of Some s \<Rightarrow> s \<noteq> [] | None \<Rightarrow> False)"

definition path_parts :: "string \<Rightarrow> string list" where
  "path_parts p = filter (\<lambda>s. s \<noteq> []) (js_split CHR ''/'' p)"

text \<open>
  Modelled from the spec: the block store is an external collaborator (\<^verbatim>\<open>ipfs-core\<close>),
  not code of this repository. Section 4.1: the resolver walks the existing tree as far
  as possible and reports the deepest node that has a CID of its own, plus the trailing
  segments it did not walk; a segment that is missing or held inline ends the walk
  without an error. Only a link is followed, and the block it names must be in the store.
  The first argument is for a resolver that departs from Section 4.1 at a missing
  segment and reports it as an error (\<^verbatim>\<open>ipfs-core\<close> has the error \<^verbatim>\<open>ERR_NO_LINK\<close>); a
  segment held inline ends the walk without an error in both.
\<close>

fun resolve_walk :: "bool \<Rightarrow> cid set \<Rightarrow> cid \<Rightarrow> string list \<Rightarrow> error + cid \<times> string" where
  "resolve_walk strict B c [] = (if c \<in> B then Inr (c, []) else Inl BlockStoreError)"
| "resolve_walk strict B c (k # rest) =
     (if c \<in> B then
        (case own_prop (block_of c) k of
           Some (JLink c') \<Rightarrow> resolve_walk strict B c' rest
         | Some v \<Rightarrow> Inr (c, js_join ''/'' (k # rest))
         | None \<Rightarrow>
             (if strict then Inl BlockStoreError else Inr (c, js_join ''/'' (k # rest))))
      else Inl BlockStoreError)"

text \<open>
  Modelled from the spec: \<^verbatim>\<open>ipfs.dag.resolve\<close> of the string
  \<^verbatim>\<open>/ipfs/${root.toString()}${parentPath}\<close>. The CID is read up to the first \<^verbatim>\<open>/\<close>, so a
  non-empty \<open>parentPath\<close> that does not start with \<^verbatim>\<open>/\<close> garbles the CID and the call
  fails; with no path at all the root is returned without being loaded.
\<close>

definition resolve_path :: "bool \<Rightarrow> cid set \<Rightarrow> cid \<Rightarrow> string \<Rightarrow> error + cid \<times> string" where
  "resolve_path strict B root p =
     (if p = [] then Inr (root, [])
      else if hd p \<noteq> CHR ''/'' then Inl InvalidCid
      else resolve_walk strict B root (path_parts (tl p)))"

text \<open>The call of \<^verbatim>\<open>ipfs.dag.resolve\<close> at line 190, recorded.\<close>

definition dag_resolve :: "api \<Rightarrow> world \<Rightarrow> cid \<Rightarrow> string \<Rightarrow> (error + cid \<times> string) \<times> world" where
  "dag_resolve a w root p =
     (resolve_path (resolve_strict a) (blocks w) root p, emit (DagResolve root p) w)"

text \<open>
  Modelled from the spec: \<^verbatim>\<open>ipfs.dag.get(cid, {path})\<close> returns the value at the path,
  loading every link on the way and the value itself when it is a link; it fails on a
  missing block or a missing field.
\<close>

fun get_walk :: "cid set \<Rightarrow> jsval \<Rightarrow> string list \<Rightarrow> error + jsval" where
  "get_walk B v [] = Inr v"
| "get_walk B v (k # rest) =
     (case own_prop v k of
        None \<Rightarrow> Inl BlockStoreError
      | Some (JLink c) \<Rightarrow> (if c \<in> B then get_walk B (block_of c) rest else Inl BlockStoreError)
      | Some x \<Rightarrow> get_walk B x rest)"

text \<open>
  The calls \<^verbatim>\<open>ipfs.dag.get(cid)\<close> at line 193 (no path) and
  \<^verbatim>\<open>ipfs.dag.get(root, {path, timeout})\<close> at line 109, recorded. A block that the local
  store does not hold is a failure (the wait is bounded).
\<close>

definition dag_get :: "world \<Rightarrow> cid \<Rightarrow> string \<Rightarrow> (error + jsval) \<times> world" where
  "dag_get w c p =
     ((if c \<in> blocks w then get_walk (blocks w) (block_of c) (path_parts p)
       else Inl BlockStoreError),
      emit (DagGet c p) w)"

text \<open>
  Modelled from the spec: \<^verbatim>\<open>ipfs.dag.put(value, {storeCodec: "dag-cbor"})\<close> encodes the
  value, stores the block and returns its CID. A value of the data model is stored as
  it is. A value that holds \<^verbatim>\<open>undefined\<close> or an integer of more than 64 bits cannot be
  encoded. For any other value the codec of the engine decides: the block holds
  \<open>encode_other\<close> of the value, if there is one.
\<close>

definition stored_form :: "api \<Rightarrow> jsval \<Rightarrow> jsval option" where
  "stored_form a v =
     (if encodable v then Some v
      else if refused v then None
      else encode_other (js a) v)"

definition dag_put :: "api \<Rightarrow> world \<Rightarrow> jsval \<Rightarrow> (error + cid) \<times> world" where
  "dag_put a w v =
     (case stored_form a v of
        Some b \<Rightarrow> (Inr (CID b), emit (DagPut v) (w\<lparr>blocks := insert (CID b) (blocks w)\<rparr>))
      | None \<Rightarrow> (Inl BlockStoreError, emit (DagPut v) w))"

text \<open>
  Modelled from the spec: the versioned pointer service (Ceramic) is an external
  collaborator. \<^verbatim>\<open>TileDocument.deterministic\<close> returns the document of a controller and a
  tag; its content is what the last update wrote, and empty if there was none.
\<close>

definition tile_query :: "world \<Rightarrow> string \<Rightarrow> string \<Rightarrow> (string \<times> jsval) list \<times> world" where
  "tile_query w controller tag = (docs w controller tag, emit (TileQuery controller tag) w)"

text \<open>\<^verbatim>\<open>doc.content["/"]\<close>: \<^verbatim>\<open>undefined\<close> when the content has no such field.\<close>

definition content_field :: "(string \<times> jsval) list \<Rightarrow> string \<Rightarrow> jsval" where
  "content_field content k = (case map_of content k of Some v \<Rightarrow> v | None \<Rightarrow> JUndefined)"

section \<open>Root lifecycle\<close>

text \<open>
  \<^verbatim>\<open>ParcelOptions\<close> is declared outside this file; the code reads \<^verbatim>\<open>ownerDID\<close> and
  \<^verbatim>\<open>parcelId.toString()\<close>, which is the \<open>parcelId\<close> here.
\<close>

record parcel_opts =
  ownerDID :: string
  parcelId :: string

text \<open>\<^verbatim>\<open>commit\<close>, lines 346 to 360: the document's content becomes the dag-json of the root.\<close>

definition commit :: "api \<Rightarrow> world \<Rightarrow> cid \<Rightarrow> parcel_opts \<Rightarrow> (error + unit) \<times> world" where
  "commit a w root opts =
     (let (content, w1) = tile_query w (ownerDID opts) (parcelId opts);
          new_content = [(''/'', JStr (cid_text a root))]
      in (Inr (),
          emit (TileUpdate (ownerDID opts) (parcelId opts) (JObj new_content))
            (w1\<lparr>docs := (docs w1)(ownerDID opts := (docs w1 (ownerDID opts))(parcelId opts := new_content))\<rparr>)))"

text \<open>\<^verbatim>\<open>initRoot\<close>, lines 52 to 55.\<close>

definition initRoot :: "api \<Rightarrow> world \<Rightarrow> parcel_opts \<Rightarrow> (error + unit) \<times> world" where
  "initRoot a w opts =
     (case dag_put a w (JObj []) of
        (Inl e, w1) \<Rightarrow> (Inl e, w1)
      | (Inr emptyRoot, w1) \<Rightarrow> commit a w1 emptyRoot opts)"

text \<open>\<^verbatim>\<open>resolveRoot\<close>, lines 65 to 100.\<close>

definition resolveRoot :: "api \<Rightarrow> world \<Rightarrow> parcel_opts \<Rightarrow> (error + cid) \<times> world" where
  "resolveRoot a w opts =
     (let (doc1, w1) = tile_query w (ownerDID opts) (parcelId opts);
          (doc, w2) =
            (if \<not> js_truthy (content_field doc1 ''/'')
             then tile_query w1 (toLowerCase (ownerDID opts)) (parcelId opts)
             else (doc1, w1))
      in if js_truthy (content_field doc ''/'')
         then (case cid_parse a (content_field doc ''/'') of
                 Some c \<Rightarrow> (Inr c, w2)
               | None \<Rightarrow> (Inl InvalidCid, w2))
         else dag_put a w2 (JObj []))"

section \<open>Retrieval\<close>

text \<open>\<^verbatim>\<open>get\<close>, lines 106 to 151. The \<^verbatim>\<open>block.put\<close> of the fallback is not awaited.\<close>

definition get :: "api \<Rightarrow> world \<Rightarrow> cid \<Rightarrow> string \<Rightarrow> string option \<Rightarrow> (error + jsval) \<times> world" where
  "get a w root path schema =
     (let (v, w2) =
            (case dag_get w root path of
               (Inr v, w1) \<Rightarrow> (v, w1)
             | (Inl e, w1) \<Rightarrow>
                 (if configured (ipfsGatewayHost a) then
                    (let host = the (ipfsGatewayHost a);
                         w1a = emit (GatewayGet host root path) (emit (Console LogDebug) w1)
                     in case gateway_fetch a host root path of
                          Some b \<Rightarrow>
                            (b, emit (BlockPut b) (w1a\<lparr>blocks := insert (CID b) (blocks w1a)\<rparr>))
                        | None \<Rightarrow> (JUndefined, emit (Console LogWarn) w1a))
                  else (JUndefined, emit (Console LogInfo) w1)))
      in if configured schema then (Inr (toTyped a (the schema) v), w2) else (Inr v, w2))"

text \<open>\<^verbatim>\<open>getPath\<close>, lines 157 to 164.\<close>

definition getPath :: "api \<Rightarrow> world \<Rightarrow> string \<Rightarrow> parcel_opts \<Rightarrow> string option \<Rightarrow> (error + jsval) \<times> world" where
  "getPath a w path opts schema =
     (case resolveRoot a w opts of
        (Inl e, w1) \<Rightarrow> (Inl e, w1)
      | (Inr root, w1) \<Rightarrow> get a w1 root path schema)"


section \<open>Mutation\<close>

text \<open>\<^verbatim>\<open>LeafSchemaOptions & PinOptions\<close>; an absent \<^verbatim>\<open>opts\<close> has every field unset.\<close>

record put_opts =
  leafSchema :: "string option"
  parentSchema :: "string option"
  pin :: bool

text \<open>Lines 187 to 189: the last segment, and the path with \<^verbatim>\<open>/lastSegment\<close> replaced by nothing.\<close>

definition lastPathSegment :: "string \<Rightarrow> string" where
  "lastPathSegment path = last (js_split CHR ''/'' path)"

definition parentPath :: "string \<Rightarrow> string" where
  "parentPath path = js_replace (CHR ''/'' # lastPathSegment path) path"

text \<open>Lines 236 to 238 and 266 to 269: \<^verbatim>\<open>newValue.filter((v) => v)\<close> on an array.\<close>

definition compact :: "jsval \<Rightarrow> jsval" where
  "compact v = (case v of JArr xs \<Rightarrow> JArr (filter js_truthy xs) | _ \<Rightarrow> v)"

text \<open>
  Lines 234 to 261, and again 265 to 292 with the nested path: the edit, the compaction
  and the validation against \<open>parentSchema\<close> with its fallback to a link. The result is
  \<open>newValue\<close> and \<open>innerBlocks\<close>. The first \<^verbatim>\<open>putInnerPath\<close> has mutated \<open>value\<close> in place,
  so the second one starts from its result, before compaction.
\<close>

definition edit_node ::
  "api \<Rightarrow> world \<Rightarrow> jsval \<Rightarrow> string \<Rightarrow> jsval \<Rightarrow> put_opts \<Rightarrow> (error + jsval \<times> cid list) \<times> world"
where
  "edit_node a w val p newData opts =
     (case putInnerPath (js a) val p newData of
        Inl e \<Rightarrow> (Inl e, w)
      | Inr edited \<Rightarrow>
          (let newValue = compact edited in
           if configured (parentSchema opts) then
             (let newDataRepresentation = toRepresentation a (the (parentSchema opts)) newValue in
              if js_truthy newValue \<and> newDataRepresentation = JUndefined then
                (case dag_put a w newData of
                   (Inl e, w1) \<Rightarrow> (Inl e, w1)
                 | (Inr newDataLink, w1) \<Rightarrow>
                     (case putInnerPath (js a) edited p (JLink newDataLink) of
                        Inl e \<Rightarrow> (Inl e, w1)
                      | Inr linked \<Rightarrow>
                          (if toRepresentation a (the (parentSchema opts)) linked = JUndefined
                           then (Inl InvalidParentData, w1)
                           else (Inr (linked, [newDataLink]), w1))))
              else (Inr (newValue, []), w))
           else (Inr (newValue, []), w)))"

text \<open>Lines 301 to 320: the archive of the new block and the inner blocks is uploaded.\<close>

definition pin_blocks :: "api \<Rightarrow> world \<Rightarrow> jsval \<Rightarrow> cid list \<Rightarrow> put_opts \<Rightarrow> (error + unit) \<times> world" where
  "pin_blocks a w newValue innerBlocks opts =
     (if pin opts then
        (if w3InvocationConfig a = None then (Inl NotConfigured, w)
         else if uploadCAR a (CID newValue # innerBlocks)
           then (Inr (), emit (CarUpload (CID newValue # innerBlocks)) w)
           else (Inl UploadFailed,
                 emit (Console LogError) (emit (CarUpload (CID newValue # innerBlocks)) w)))
      else (Inr (), w))"

text \<open>
  One call of \<^verbatim>\<open>putPath\<close> up to its last statement, lines 177 to 325: either the new
  root (2a), or the parent path and the new CID that the recursive call of line 328 gets.
\<close>

datatype step = Done cid | Recurse string cid

definition putPath_body ::
  "api \<Rightarrow> world \<Rightarrow> cid \<Rightarrow> string \<Rightarrow> jsval \<Rightarrow> put_opts \<Rightarrow> (error + step) \<times> world"
where
  "putPath_body a w root path data opts =
     (let newData =
            (if configured (leafSchema opts) then toRepresentation a (the (leafSchema opts)) data
             else data)
      in if configured (leafSchema opts) \<and> newData = JUndefined then (Inl InvalidLeafData, w)
      else
        (case dag_resolve a w root (parentPath path) of
           (Inl e, w1) \<Rightarrow> (Inl e, w1)
         | (Inr (cid, remainderPath), w1) \<Rightarrow>
             (case dag_get w1 cid [] of
                (Inl e, w2) \<Rightarrow> (Inl e, w2)
              | (Inr val, w2) \<Rightarrow>
                  (let nestedPath =
                         (if remainderPath = [] then CHR ''/'' # lastPathSegment path
                          else ''/'' @ remainderPath @ ''/'' @ lastPathSegment path);
                       parentPath' =
                         (if remainderPath = [] then parentPath path
                          else js_replace remainderPath (parentPath path))
                   in case edit_node a w2 val nestedPath newData opts of
                        (Inl e, w3) \<Rightarrow> (Inl e, w3)
                      | (Inr (newValue, innerBlocks), w3) \<Rightarrow>
                          (case dag_put a w3 newValue of
                             (Inl e, w4) \<Rightarrow> (Inl e, w4)
                           | (Inr newCid, w4) \<Rightarrow>
                               (case pin_blocks a w4 newValue innerBlocks opts of
                                  (Inl e, w5) \<Rightarrow> (Inl e, w5)
                                | (Inr u, w5) \<Rightarrow>
                                    (if parentPath' = ''/'' \<or> parentPath' = []
                                     then (Inr (Done newCid), w5)
                                     else (Inr (Recurse parentPath' newCid), w5))))))))"


subsection \<open>The recursion\<close>

text \<open>
  Each call hands a strictly shorter path to the next one: \<^verbatim>\<open>/lastSegment\<close> occurs in a
  path that has a \<^verbatim>\<open>/\<close>, and a path without one is either empty (the base case) or
  refused by the resolver.
\<close>

lemma js_replace_length_le: "length (js_replace pat s) \<le> length s"
  by (induction s) auto

lemma js_replace_occurs:
  "pat \<noteq> [] \<Longrightarrow> length (js_replace pat (a @ pat @ b)) < length (a @ pat @ b)"
proof (induction a)
  case Nil
  then show ?case by (cases pat) auto
next
  case (Cons x a)
  then show ?case by auto
qed

lemma js_replace_no_sep:
  "c \<notin> set s \<Longrightarrow> js_replace (c # p) s = s"
proof (induction s)
  case Nil
  then show ?case by simp
next
  case (Cons x s)
  then show ?case by auto
qed

lemma split_last_suffix:
  "c \<in> set p \<Longrightarrow> \<exists>a. p = a @ c # last (js_split c p)"
proof (induction p)
  case Nil
  then show ?case by simp
next
  case (Cons x p)
  show ?case
  proof (cases "c \<in> set p")
    case True
    with Cons obtain a where a: "p = a @ c # last (js_split c p)" by blast
    have ne: "tl (js_split c p) \<noteq> []"
      using True by (induction p) (auto simp: js_split_nonempty split: if_splits)
    have "last (js_split c (x # p)) = last (js_split c p)"
      using ne js_split_nonempty[of c p] by (auto simp: last_tl)
    with a have "x # p = (x # a) @ c # last (js_split c (x # p))" by simp
    then show ?thesis by blast
  next
    case False
    with Cons.prems have xc: "x = c" by simp
    have "js_split c p = [p]" using False
      by (induction p) auto
    with xc have "x # p = [] @ c # last (js_split c (x # p))" by simp
    then show ?thesis by blast
  qed
qed

lemma parentPath_shorter:
  "CHR ''/'' \<in> set path \<Longrightarrow> length (parentPath path) < length path"
proof -
  assume "CHR ''/'' \<in> set path"
  then obtain a where a: "path = a @ CHR ''/'' # lastPathSegment path"
    unfolding lastPathSegment_def using split_last_suffix by blast
  have "length (js_replace (CHR ''/'' # lastPathSegment path) (a @ (CHR ''/'' # lastPathSegment path) @ []))
       < length (a @ (CHR ''/'' # lastPathSegment path) @ [])"
    by (rule js_replace_occurs) simp
  with a show ?thesis unfolding parentPath_def by simp
qed

lemma parentPath_no_sep:
  "CHR ''/'' \<notin> set path \<Longrightarrow> parentPath path = path"
  unfolding parentPath_def by (rule js_replace_no_sep)

lemma resolve_path_ok:
  "resolve_path s B root p = Inr r \<Longrightarrow> p = [] \<or> hd p = CHR ''/''"
  unfolding resolve_path_def by (auto split: if_splits)

lemma putPath_body_Recurse:
  assumes "putPath_body a w root path data opts = (Inr (Recurse p c), w')"
  shows "length p < length path"
proof -
  from assms obtain cid rem where
    res: "resolve_path (resolve_strict a) (blocks w) root (parentPath path) = Inr (cid, rem)"
    and p: "p = (if rem = [] then parentPath path else js_replace rem (parentPath path))"
    and pne: "p \<noteq> []"
    unfolding putPath_body_def dag_resolve_def Let_def
    by (auto split: if_splits sum.splits prod.splits)
  have le: "length p \<le> length (parentPath path)"
    using p js_replace_length_le by auto
  show ?thesis
  proof (cases "CHR ''/'' \<in> set path")
    case True
    then show ?thesis using parentPath_shorter le by fastforce
  next
    case False
    then have eq: "parentPath path = path" by (rule parentPath_no_sep)
    with res have "path = [] \<or> hd path = CHR ''/''" using resolve_path_ok by metis
    with False have "path = []" by (cases path) auto
    with eq have "parentPath path = []" by simp
    with p have "p = []" by (simp split: if_splits)
    with pne show ?thesis by simp
  qed
qed

text \<open>
  \<^verbatim>\<open>putPath\<close>, lines 171 to 329. The recursive call gets the original root, the parent
  path, the new CID as the value, and only \<open>pin\<close> of the options.
\<close>

function putPath ::
  "api \<Rightarrow> world \<Rightarrow> cid \<Rightarrow> string \<Rightarrow> jsval \<Rightarrow> put_opts \<Rightarrow> (error + cid) \<times> world"
where
  "putPath a w root path data opts =
     (case putPath_body a w root path data opts of
        (Inl e, w') \<Rightarrow> (Inl e, w')
      | (Inr (Done newCid), w') \<Rightarrow> (Inr newCid, w')
      | (Inr (Recurse parentPath' newCid), w') \<Rightarrow>
          putPath a w' root parentPath' (JLink newCid)
            \<lparr>leafSchema = None, parentSchema = None, pin = pin opts\<rparr>)"
  by pat_completeness auto
termination
proof (relation "measure (\<lambda>(a, w, root, path, data, opts). length path)", goal_cases)
  case 1
  then show ?case by simp
next
  case (2 a w root path data opts x w' s p c)
  then have "putPath_body a w root path data opts = (Inr (Recurse p c), w')"
    by simp
  then show ?case by (simp add: putPath_body_Recurse)
qed

declare putPath.simps [simp del]

text \<open>\<^verbatim>\<open>deletePath\<close>, lines 335 to 341.\<close>

definition deletePath :: "api \<Rightarrow> world \<Rightarrow> cid \<Rightarrow> string \<Rightarrow> put_opts \<Rightarrow> (error + cid) \<times> world" where
  "deletePath a w root path opts = putPath a w root path JNull opts"

section \<open>Notions used in the statements\<close>

text \<open>The path \<^verbatim>\<open>/k1/k2/.../kn\<close> of the segments \<open>k1\<close>, ..., \<open>kn\<close>.\<close>

definition path_of :: "string list \<Rightarrow> string" where
  "path_of ks = concat (map (\<lambda>k. CHR ''/'' # k) ks)"

text \<open>A segment is a field name: not empty, and without \<^verbatim>\<open>/\<close>.\<close>

definition segment :: "string \<Rightarrow> bool" where
  "segment k = (k \<noteq> [] \<and> CHR ''/'' \<notin> set k)"

definition starts_with :: "string \<Rightarrow> string \<Rightarrow> bool" where
  "starts_with s p = (take (length p) s = p)"

text \<open>
  No segment begins with the name of a later segment. Then the first occurrence of
  \<^verbatim>\<open>/lastSegment\<close> in the path is the last segment itself, at every level of the
  recursion.
\<close>

fun unambiguous :: "string list \<Rightarrow> bool" where
  "unambiguous [] = True"
| "unambiguous (k # ks) = (list_all (\<lambda>x. \<not> starts_with k x) ks \<and> unambiguous ks)"

text \<open>
  Every node along the segments, from the block \<open>c\<close> on, is held in a block of its own
  that the store has and that is a value of the data model, and each segment is a
  stored link to the next node: a field of an object or an element of a sequence.
\<close>

fun block_chain :: "cid set \<Rightarrow> cid \<Rightarrow> string list \<Rightarrow> bool" where
  "block_chain B c [] = (c \<in> B \<and> encodable (block_of c))"
| "block_chain B c (k # ks) =
     (c \<in> B \<and> encodable (block_of c) \<and>
      (case own_prop (block_of c) k of Some (JLink c') \<Rightarrow> block_chain B c' ks | _ \<Rightarrow> False))"

text \<open>The block that is reached from \<open>c\<close> along the links of the segments.\<close>

fun chain_end :: "cid \<Rightarrow> string list \<Rightarrow> cid" where
  "chain_end c [] = c"
| "chain_end c (k # ks) =
     (case own_prop (block_of c) k of Some (JLink c') \<Rightarrow> chain_end c' ks | _ \<Rightarrow> c)"

text \<open>
  The compaction leaves the entry under \<open>k\<close> of the node where it is: in a sequence,
  \<open>k\<close> is an index that does not lie past the end and no entry before it is falsy. An
  object keeps every field. \<open>firm_chain\<close>: this holds of every node along the segments,
  for the segment that leads on from it.
\<close>

definition firm :: "jsval \<Rightarrow> string \<Rightarrow> bool" where
  "firm node k =
     (case node of
        JArr xs \<Rightarrow>
          (case array_index k of
             Some i \<Rightarrow> i \<le> length xs \<and> list_all js_truthy (take i xs)
           | None \<Rightarrow> False)
      | _ \<Rightarrow> True)"

fun firm_chain :: "cid \<Rightarrow> string list \<Rightarrow> bool" where
  "firm_chain c [] = True"
| "firm_chain c (k # ks) =
     (firm (block_of c) k \<and>
      (case own_prop (block_of c) k of Some (JLink c') \<Rightarrow> firm_chain c' ks | _ \<Rightarrow> False))"

text \<open>
  The assignment \<^verbatim>\<open>node[k] = v\<close> stores \<open>v\<close> under \<open>k\<close> in the node: the node is an
  object and \<open>k\<close> is a stored field or a name that is not built in, or the node is a
  sequence and \<open>k\<close> is an index or a name that is not built in (such a name leaves the
  entries of the sequence as they are).
\<close>

definition assignable :: "engine \<Rightarrow> jsval \<Rightarrow> string \<Rightarrow> bool" where
  "assignable e node k =
     (case node of
        JObj kvs \<Rightarrow> map_of kvs k \<noteq> None \<or> \<not> built_in e node k
      | JArr xs \<Rightarrow> array_index k \<noteq> None \<or> \<not> built_in e node k
      | _ \<Rightarrow> False)"

text \<open>The node after such an assignment.\<close>

definition written :: "jsval \<Rightarrow> string \<Rightarrow> jsval \<Rightarrow> jsval" where
  "written node k v =
     (case node of
        JObj kvs \<Rightarrow> JObj (AList.update k v kvs)
      | JArr xs \<Rightarrow>
          (case array_index k of
             Some i \<Rightarrow>
               (if i < length xs then JArr (xs[i := v])
                else JArr (xs @ replicate (i - length xs) JUndefined @ [v]))
           | None \<Rightarrow> JArr xs)
      | _ \<Rightarrow> node)"

text \<open>
  \<^verbatim>\<open>delete node[k]\<close> succeeds on the node: it is an object, or a sequence and \<open>k\<close> is not
  its \<^verbatim>\<open>length\<close>.
\<close>

definition removable :: "jsval \<Rightarrow> string \<Rightarrow> bool" where
  "removable node k =
     (case node of JObj kvs \<Rightarrow> True | JArr xs \<Rightarrow> k \<noteq> ''length'' | _ \<Rightarrow> False)"

text \<open>
  A value written under \<open>k\<close> is still there after the compaction: the entry is firm,
  and in a sequence the value is truthy.
\<close>

definition in_place :: "jsval \<Rightarrow> string \<Rightarrow> jsval \<Rightarrow> bool" where
  "in_place node k v =
     (firm node k \<and> (case node of JArr xs \<Rightarrow> js_truthy v | _ \<Rightarrow> True))"

text \<open>
  Writing under \<open>k\<close> leaves no hole: in a sequence, \<open>k\<close> is an index that does not lie
  past the end.
\<close>

definition fits :: "jsval \<Rightarrow> string \<Rightarrow> bool" where
  "fits node k =
     (case node of
        JArr xs \<Rightarrow> (case array_index k of Some i \<Rightarrow> i \<le> length xs | None \<Rightarrow> False)
      | _ \<Rightarrow> True)"

text \<open>What a read returns for the value found at the end of a path: a link is loaded.\<close>

definition settle :: "cid set \<Rightarrow> jsval \<Rightarrow> error + jsval" where
  "settle B v =
     (case v of JLink c \<Rightarrow> (if c \<in> B then Inr (block_of c) else Inl BlockStoreError) | _ \<Rightarrow> Inr v)"

text \<open>
  A call of \<^verbatim>\<open>putPath\<close> that passes the leaf check calls \<^verbatim>\<open>dag.resolve\<close> once, at line
  190, so the calls of the resolver count the calls of \<^verbatim>\<open>putPath\<close>; the calls of
  \<^verbatim>\<open>dag.put\<close> count the nodes that were persisted.
\<close>

definition resolve_calls :: "event list \<Rightarrow> nat" where
  "resolve_calls es = length (filter (\<lambda>e. case e of DagResolve c p \<Rightarrow> True | _ \<Rightarrow> False) es)"

definition put_calls :: "event list \<Rightarrow> nat" where
  "put_calls es = length (filter (\<lambda>e. case e of DagPut v \<Rightarrow> True | _ \<Rightarrow> False) es)"

text \<open>If pinning is requested, the upload context is there and every upload succeeds.\<close>

definition uploads_succeed :: "api \<Rightarrow> put_opts \<Rightarrow> bool" where
  "uploads_succeed a opts =
     (pin opts \<longrightarrow> w3InvocationConfig a \<noteq> None \<and> (\<forall>bs. uploadCAR a bs))"

text \<open>\<^verbatim>\<open>CID.parse\<close> of the root field of a document.\<close>

definition parse_root :: "api \<Rightarrow> jsval \<Rightarrow> error + cid" where
  "parse_root a v = (case cid_parse a v of Some c \<Rightarrow> Inr c | None \<Rightarrow> Inl InvalidCid)"

section \<open>Example configurations\<close>

text \<open>
  An engine for the examples. The names it has of its own are the properties of
  \<^verbatim>\<open>Object.prototype\<close>, which every value inherits, and no others; the paths of the
  examples use none of them. Reading one gives the function (for \<^verbatim>\<open>__proto__\<close> the
  prototype) as a host object. Assigning to one makes it a field of an object and a
  named property of an array, a CID object or a host object. The length of an array
  takes a number in range only. The codec refuses what is outside the data model.
\<close>

definition object_prototype_names :: "string list" where
  "object_prototype_names =
     [''__proto__'', ''constructor'', ''hasOwnProperty'', ''isPrototypeOf'',
      ''propertyIsEnumerable'', ''toLocaleString'', ''toString'', ''valueOf'',
      ''__defineGetter__'', ''__defineSetter__'', ''__lookupGetter__'', ''__lookupSetter__'']"

definition example_engine :: engine where
  "example_engine =
     \<lparr>builtin = (\<lambda>node k. k \<in> set object_prototype_names),
      builtin_get =
        (\<lambda>node k. if k \<in> set object_prototype_names then Inr (JHost k) else Inr JUndefined),
      builtin_set =
        (\<lambda>node k v.
           if k = ''__proto__'' then Inr node
           else (case node of
                   JObj kvs \<Rightarrow> Inr (JObj (AList.update k v kvs))
                 | JArr xs \<Rightarrow> (if k = ''length'' then Inl JsRangeError else Inr node)
                 | JLink c \<Rightarrow> Inr node
                 | JHost h \<Rightarrow> Inr node
                 | _ \<Rightarrow> Inl JsTypeError)),
      builtin_delete = (\<lambda>node k. Inr node),
      encode_other = (\<lambda>v. None)\<rparr>"

text \<open>
  An API object with no gateway and no upload context, whose schema transforms accept
  everything, which knows the text form of one CID, and whose resolver follows
  Section 4.1 of the spec; and the same with a resolver that reports a missing segment
  as an error.
\<close>

definition parcel_node :: jsval where
  "parcel_node = JObj [(''name'', JStr ''parcel'')]"

definition example_api :: api where
  "example_api =
     \<lparr>ipfsGatewayHost = None, w3InvocationConfig = None,
      toRepresentation = (\<lambda>s v. v), toTyped = (\<lambda>s v. v),
      gateway_fetch = (\<lambda>h c p. None), uploadCAR = (\<lambda>bs. True),
      cid_parse = (\<lambda>v. if v = JStr ''bafy-parcel'' then Some (CID parcel_node) else None),
      cid_text = (\<lambda>c. if c = CID parcel_node then ''bafy-parcel'' else []),
      js = example_engine, resolve_strict = False\<rparr>"

definition strict_api :: api where
  "strict_api = example_api\<lparr>resolve_strict := True\<rparr>"

text \<open>
  A schema service that rejects the string \<^verbatim>\<open>"big"\<close> held inline under \<^verbatim>\<open>k\<close> and
  accepts a link there.
\<close>

definition link_only_api :: api where
  "link_only_api = example_api
     \<lparr>toRepresentation := \<lambda>s v. if v = JObj [(''k'', JStr ''big'')] then JUndefined else v\<rparr>"

definition no_opts :: put_opts where
  "no_opts = \<lparr>leafSchema = None, parentSchema = None, pin = False\<rparr>"

definition item_opts :: put_opts where
  "item_opts = \<lparr>leafSchema = None, parentSchema = Some ''Item'', pin = False\<rparr>"

text \<open>A world with the given blocks, no document and no call made yet.\<close>

definition fresh_world :: "cid set \<Rightarrow> world" where
  "fresh_world B = \<lparr>blocks = B, docs = (\<lambda>c t. []), trace = []\<rparr>"

text \<open>An array block with a falsy entry.\<close>

definition falsy_array :: jsval where
  "falsy_array = JArr [JNum 0, JStr ''b'', JStr ''c'']"

text \<open>The tree \<^verbatim>\<open>/a/b/a\<close>, each node in a block of its own.\<close>

definition deep_leaf :: jsval where
  "deep_leaf = JObj [(''a'', JNum 1)]"

definition deep_mid :: jsval where
  "deep_mid = JObj [(''b'', JLink (CID deep_leaf))]"

definition deep_root :: jsval where
  "deep_root = JObj [(''a'', JLink (CID deep_mid))]"

text \<open>The tree \<^verbatim>\<open>/a/b/c\<close>, each node in a block of its own.\<close>

definition tree_leaf :: jsval where
  "tree_leaf = JObj [(''c'', JNum 1)]"

definition tree_mid :: jsval where
  "tree_mid = JObj [(''b'', JLink (CID tree_leaf))]"

definition tree_root :: jsval where
  "tree_root = JObj [(''a'', JLink (CID tree_mid)), (''z'', JNum 9)]"

text \<open>A root that holds \<^verbatim>\<open>/a/b\<close> inline, in its own block.\<close>

definition inline_root :: jsval where
  "inline_root = JObj [(''a'', JObj [(''b'', JNum 1)])]"

text \<open>
  An item, linked from an array after the entry \<^verbatim>\<open>0\<close>, and linked from an array of
  links.
\<close>

definition list_item :: jsval where
  "list_item = JObj [(''k'', JStr ''old'')]"

definition list_root :: jsval where
  "list_root = JArr [JNum 0, JLink (CID list_item)]"

definition link_list :: jsval where
  "link_list = JArr [JLink (CID parcel_node), JLink (CID list_item)]"

text \<open>The pointer service holds a root for the lower-cased owner only.\<close>

definition lowercase_world :: world where
  "lowercase_world =
     \<lparr>blocks = {},
      docs = (\<lambda>c t. if c = ''0xabc'' \<and> t = ''7'' then [(''/'', JStr ''bafy-parcel'')] else []),
      trace = []\<rparr>"

definition parcel_7 :: parcel_opts where
  "parcel_7 = \<lparr>ownerDID = ''0xABC'', parcelId = ''7''\<rparr>"

lemmas eval_defs =
  putPath_body_def dag_resolve_def resolve_path_def path_parts_def dag_get_def dag_put_def
  stored_form_def edit_node_def pin_blocks_def emit_def configured_def compact_def
  lastPathSegment_def parentPath_def example_api_def example_engine_def
  object_prototype_names_def built_in_def no_opts_def fresh_world_def is_nullish_def
  js_prop_def array_index_def is_digit_def digits_value_def

lemmas tree_defs = tree_leaf_def tree_mid_def tree_root_def

section \<open>Lemmas\<close>

subsection \<open>Paths and their segments\<close>

lemma path_of_simps [simp]:
  "path_of [] = []"
  "path_of (k # ks) = CHR ''/'' # k @ path_of ks"
  "path_of (ks @ ks') = path_of ks @ path_of ks'"
  by (simp_all add: path_of_def)

lemma js_split_no_sep: "c \<notin> set s \<Longrightarrow> js_split c s = [s]"
  by (induction s) auto

lemma js_split_append: "c \<notin> set s \<Longrightarrow> js_split c (s @ c # t) = s # js_split c t"
  by (induction s) auto

lemma js_split_path_of:
  "list_all segment ks \<Longrightarrow> js_split CHR ''/'' (path_of ks) = [] # ks"
proof (induction ks)
  case Nil
  then show ?case by simp
next
  case (Cons k ks)
  then have k: "CHR ''/'' \<notin> set k" and IH: "js_split CHR ''/'' (path_of ks) = [] # ks"
    by (simp_all add: segment_def)
  show ?case
  proof (cases ks)
    case Nil
    with k show ?thesis by (simp add: js_split_no_sep)
  next
    case (Cons k' ks')
    with IH have "js_split CHR ''/'' (k' @ path_of ks') = ks" by simp
    with k Cons show ?thesis by (simp add: js_split_append)
  qed
qed

lemma js_split_segment_path:
  "segment k \<Longrightarrow> list_all segment ks \<Longrightarrow> js_split CHR ''/'' (k @ path_of ks) = k # ks"
  using js_split_path_of [of "k # ks"] by simp

lemma lastPathSegment_path_of:
  "list_all segment (ks @ [k]) \<Longrightarrow> lastPathSegment (path_of (ks @ [k])) = k"
  unfolding lastPathSegment_def by (simp only: js_split_path_of) simp

lemma js_replace_skip:
  "c \<notin> set s \<Longrightarrow> js_replace (c # p) (s @ t) = s @ js_replace (c # p) t"
  by (induction s) auto

lemma js_replace_self: "p \<noteq> [] \<Longrightarrow> js_replace p p = []"
  by (cases p) auto

lemma not_starts_with_path:
  assumes "\<not> starts_with x k" and "CHR ''/'' \<notin> set k"
  shows "take (length k) (x @ CHR ''/'' # t) \<noteq> k"
proof
  assume eq: "take (length k) (x @ CHR ''/'' # t) = k"
  show False
  proof (cases "length k \<le> length x")
    case True
    with eq have "take (length k) x = k" by simp
    with assms(1) show False by (simp add: starts_with_def)
  next
    case False
    then have "length x < length k" by simp
    then have "(take (length k) (x @ CHR ''/'' # t)) ! length x = (x @ CHR ''/'' # t) ! length x"
      by (rule nth_take)
    then have "(take (length k) (x @ CHR ''/'' # t)) ! length x = CHR ''/''"
      by simp
    with eq have "k ! length x = CHR ''/''" by simp
    moreover from False have "length x < length k" by simp
    ultimately have "CHR ''/'' \<in> set k" by (metis nth_mem)
    with assms(2) show False by simp
  qed
qed

lemma js_replace_last_segment:
  assumes "list_all segment (ks @ [k])" and "list_all (\<lambda>x. \<not> starts_with x k) ks"
  shows "js_replace (CHR ''/'' # k) (path_of (ks @ [k])) = path_of ks"
  using assms
proof (induction ks)
  case Nil
  then show ?case by simp
next
  case (Cons x ks)
  then have x: "CHR ''/'' \<notin> set x" and k: "CHR ''/'' \<notin> set k" and nsw: "\<not> starts_with x k"
    and IH: "js_replace (CHR ''/'' # k) (path_of (ks @ [k])) = path_of ks"
    by (simp_all add: segment_def)
  obtain t where t: "path_of (ks @ [k]) = CHR ''/'' # t"
    by (cases ks) auto
  have "take (length k) (x @ path_of (ks @ [k])) \<noteq> k"
    unfolding t using nsw k by (rule not_starts_with_path)
  then have "js_replace (CHR ''/'' # k) (path_of ((x # ks) @ [k]))
      = CHR ''/'' # js_replace (CHR ''/'' # k) (x @ path_of (ks @ [k]))"
    by simp
  also have "\<dots> = CHR ''/'' # x @ js_replace (CHR ''/'' # k) (path_of (ks @ [k]))"
    using x by (simp add: js_replace_skip)
  finally show ?case using IH by simp
qed

lemma parentPath_path_of:
  assumes "list_all segment (ks @ [k])" and "list_all (\<lambda>x. \<not> starts_with x k) ks"
  shows "parentPath (path_of (ks @ [k])) = path_of ks"
  unfolding parentPath_def
  using assms by (simp only: lastPathSegment_path_of js_replace_last_segment)

lemma path_parts_path_of: "list_all segment ks \<Longrightarrow> path_parts (path_of ks) = ks"
  unfolding path_parts_def
  by (simp add: js_split_path_of) (induction ks; simp add: segment_def)

lemma path_parts_tl_path_of:
  assumes "list_all segment ks"
  shows "path_parts (tl (path_of ks)) = ks"
proof (cases ks)
  case Nil
  then show ?thesis by (simp add: path_parts_def)
next
  case (Cons k ks')
  with assms have "js_split CHR ''/'' (k @ path_of ks') = k # ks'"
    by (simp add: js_split_segment_path)
  moreover have "filter (\<lambda>s. s \<noteq> []) ks = ks"
    using assms by (induction ks) (simp_all add: segment_def)
  ultimately show ?thesis using Cons by (simp add: path_parts_def)
qed

lemma resolve_path_path_of:
  assumes "list_all segment ks"
  shows "resolve_path s B root (path_of ks)
           = (if ks = [] then Inr (root, []) else resolve_walk s B root ks)"
proof (cases ks)
  case Nil
  then show ?thesis by (simp add: resolve_path_def)
next
  case (Cons k ks')
  have "path_parts (tl (path_of ks)) = ks" using assms by (rule path_parts_tl_path_of)
  with Cons show ?thesis by (simp add: resolve_path_def)
qed

lemma unambiguous_snoc:
  "unambiguous (ks @ [k]) = (unambiguous ks \<and> list_all (\<lambda>x. \<not> starts_with x k) ks)"
  by (induction ks) auto

subsection \<open>Walking a tree of linked blocks\<close>

lemma block_chain_resolve:
  "block_chain B c ks \<Longrightarrow>
   resolve_walk s B c ks = Inr (chain_end c ks, []) \<and> chain_end c ks \<in> B
     \<and> encodable (block_of (chain_end c ks))"
proof (induction ks arbitrary: c)
  case Nil
  then show ?case by simp
next
  case (Cons k ks)
  then show ?case by (auto split: jsval.splits option.splits)
qed

lemma block_chain_resolve_path:
  assumes "list_all segment ks" and "block_chain B root ks"
  shows "resolve_path s B root (path_of ks) = Inr (chain_end root ks, [])"
proof (cases "ks = []")
  case True
  then show ?thesis by (simp add: resolve_path_def)
next
  case False
  with assms show ?thesis
    by (simp add: resolve_path_path_of block_chain_resolve)
qed

lemma block_chain_mono:
  "B \<subseteq> B' \<Longrightarrow> block_chain B c ks \<Longrightarrow> block_chain B' c ks"
proof (induction ks arbitrary: c)
  case Nil
  then show ?case by auto
next
  case (Cons k ks)
  then show ?case by (auto split: jsval.splits option.splits)
qed

lemma block_chain_prefix:
  "block_chain B c (ks @ ks') \<Longrightarrow> block_chain B c ks"
proof (induction ks arbitrary: c)
  case Nil
  then show ?case by (cases ks') (auto split: jsval.splits)
next
  case (Cons k ks)
  then show ?case by (auto split: jsval.splits option.splits)
qed

lemma block_chain_last:
  "block_chain B c (ks @ [k]) \<Longrightarrow>
   own_prop (block_of (chain_end c ks)) k = Some (JLink (chain_end c (ks @ [k])))"
proof (induction ks arbitrary: c)
  case Nil
  then show ?case by (auto split: jsval.splits option.splits)
next
  case (Cons k' ks)
  then show ?case by (auto split: jsval.splits option.splits)
qed

lemma firm_chain_snoc:
  "firm_chain c (ks @ [k]) \<Longrightarrow> firm_chain c ks \<and> firm (block_of (chain_end c ks)) k"
proof (induction ks arbitrary: c)
  case Nil
  then show ?case by simp
next
  case (Cons k' ks)
  then show ?case by (auto split: jsval.splits option.splits)
qed

lemma get_walk_append:
  "get_walk B v (xs @ ys) = (case get_walk B v xs of Inl e \<Rightarrow> Inl e | Inr u \<Rightarrow> get_walk B u ys)"
  by (induction xs arbitrary: v) (auto split: option.splits jsval.splits)

lemma get_walk_single:
  "get_walk B v [k] = (case own_prop v k of None \<Rightarrow> Inl BlockStoreError | Some x \<Rightarrow> settle B x)"
  by (auto simp: settle_def split: option.splits jsval.splits)

subsection \<open>Edits of one field\<close>

lemma putInnerPath_field:
  assumes "segment k"
  shows "putInnerPath e node (CHR ''/'' # k) D
           = (if is_nullish D then js_delete e node k else js_set e node k D)"
proof -
  have "js_split CHR ''/'' (CHR ''/'' # k) = [[], k]"
    using assms by (simp add: segment_def js_split_no_sep)
  then show ?thesis
    using assms by (subst putInnerPath.simps) (simp add: segment_def)
qed

lemma putInnerPath_bare:
  assumes "segment k"
  shows "putInnerPath e node k D
           = (if is_nullish D then js_delete e node k else js_set e node k D)"
proof -
  have "js_split CHR ''/'' k = [k]"
    using assms by (simp add: segment_def js_split_no_sep)
  then show ?thesis
    using assms by (subst putInnerPath.simps) (simp add: segment_def)
qed

lemma putInnerPath_nested:
  assumes "segment p" and "segment k"
  shows "putInnerPath e node (''/'' @ p @ ''/'' @ k) D =
           (case js_prop e node p of
              Inl err \<Rightarrow> Inl err
            | Inr child \<Rightarrow>
                (case (if is_nullish D then js_delete e child k else js_set e child k D) of
                   Inl err \<Rightarrow> Inl err
                 | Inr child' \<Rightarrow> js_set e node p child'))"
proof -
  have sp: "js_split CHR ''/'' (p @ CHR ''/'' # k) = [p, k]"
    using assms js_split_segment_path [of p "[k]"] by simp
  show ?thesis
    by (subst putInnerPath.simps)
      (simp add: sp putInnerPath_bare [OF assms(2)] Let_def numeral_2_eq_2 split: sum.splits)
qed

lemma path_of_not_root:
  "list_all segment ks \<Longrightarrow> ks \<noteq> [] \<Longrightarrow> path_of ks \<noteq> ''/'' \<and> path_of ks \<noteq> []"
  by (cases ks) (auto simp: segment_def)

lemma assignable_set:
  "assignable e node k \<Longrightarrow> js_set e node k v = Inr (written node k v)"
  by (cases node) (auto simp: assignable_def written_def built_in_def split: option.splits)

lemma own_assignable:
  "own_prop node k = Some u \<Longrightarrow> assignable e node k"
  by (cases node) (auto simp: assignable_def split: option.splits)

lemma encodable_update:
  "encodable (JObj kvs) \<Longrightarrow> encodable v \<Longrightarrow> k \<noteq> ''__proto__'' \<Longrightarrow>
   encodable (JObj (AList.update k v kvs))"
  by (induction kvs) auto

lemma assignable_field_name:
  assumes "encodable (JObj kvs)" and "assignable e (JObj kvs) k"
  shows "k \<noteq> ''__proto__''"
proof
  assume k: "k = ''__proto__''"
  have "map_of kvs ''__proto__'' = None"
    using assms(1) by (induction kvs) auto
  with assms(2) k show False by (simp add: assignable_def built_in_def)
qed

lemma encodable_delete:
  "encodable (JObj kvs) \<Longrightarrow> encodable (JObj (AList.delete k kvs))"
  by (induction kvs) auto

lemma encodable_field:
  "encodable (JObj kvs) \<Longrightarrow> map_of kvs k = Some v \<Longrightarrow> encodable v"
  by (induction kvs) (auto split: if_splits)

lemma encodable_filter:
  "\<forall>x\<in>set xs. x = JUndefined \<or> encodable x \<Longrightarrow> list_all encodable (filter js_truthy xs)"
  by (induction xs) auto

lemma encodable_written:
  assumes "encodable node" and "encodable v" and "assignable e node k"
  shows "encodable (compact (written node k v))"
proof (cases node)
  case (JObj kvs)
  with assms show ?thesis
    using encodable_update [of kvs v k] assignable_field_name [of kvs e k]
    by (simp add: written_def compact_def)
next
  case (JArr xs)
  have el: "\<forall>x\<in>set xs. encodable x"
    using assms(1) JArr by (simp add: list_all_iff)
  show ?thesis
  proof (cases "array_index k")
    case None
    with JArr el show ?thesis
      by (simp add: written_def compact_def encodable_filter)
  next
    case (Some i)
    have "\<forall>x\<in>set (xs[i := v]). x = JUndefined \<or> encodable x"
      using el assms(2) set_update_subset_insert [of xs i v] by auto
    moreover have "\<forall>x\<in>set (xs @ replicate (i - length xs) JUndefined @ [v]).
        x = JUndefined \<or> encodable x"
      using el assms(2) by auto
    ultimately show ?thesis
      using JArr Some by (simp add: written_def compact_def encodable_filter del: filter_append)
  qed
qed (use assms(1,2) in \<open>simp_all add: written_def compact_def\<close>)

lemma removable_delete:
  assumes "removable node k"
  shows "\<exists>nv. js_delete e node k = Inr nv \<and> (encodable node \<longrightarrow> encodable (compact nv))"
proof (cases node)
  case (JObj kvs)
  then show ?thesis
    using encodable_delete [of kvs k] by (simp add: compact_def)
next
  case (JArr xs)
  have "encodable node \<Longrightarrow> \<forall>x\<in>set (xs[i := JUndefined]). x = JUndefined \<or> encodable x" for i
    using JArr set_update_subset_insert [of xs i JUndefined] by (auto simp: list_all_iff)
  moreover have "encodable node \<Longrightarrow> \<forall>x\<in>set xs. x = JUndefined \<or> encodable x"
    using JArr by (auto simp: list_all_iff)
  ultimately show ?thesis
    using assms JArr
    by (auto simp: removable_def compact_def encodable_filter split: option.splits)
qed (use assms in \<open>simp_all add: removable_def\<close>)

lemma written_own:
  assumes "assignable e node k" and "fits node k" and "v \<noteq> JUndefined"
  shows "own_prop (written node k v) k = Some v"
proof (cases node)
  case (JObj kvs)
  then show ?thesis by (simp add: written_def update_conv')
next
  case (JArr xs)
  from assms(2) JArr obtain i where i: "array_index k = Some i" "i \<le> length xs"
    by (auto simp: fits_def split: option.splits)
  then show ?thesis
    using JArr assms(3) by (auto simp: written_def nth_append)
qed (use assms(1) in \<open>simp_all add: assignable_def\<close>)

lemma filter_keeps_entry:
  assumes "i \<le> length xs" and "list_all P (take i xs)" and "P v"
  shows "i < length (filter P (take i xs @ v # ys)) \<and> filter P (take i xs @ v # ys) ! i = v"
proof -
  have "filter P (take i xs) = take i xs"
    using assms(2) by (simp add: list_all_iff)
  then have "filter P (take i xs @ v # ys) = take i xs @ v # filter P ys"
    using assms(3) by simp
  moreover have "length (take i xs) = i" using assms(1) by simp
  ultimately show ?thesis by (simp add: nth_append)
qed

lemma compact_written_own:
  assumes "assignable e node k" and "in_place node k v" and "v \<noteq> JUndefined"
  shows "own_prop (compact (written node k v)) k = Some v"
proof (cases node)
  case (JObj kvs)
  then show ?thesis by (simp add: written_def compact_def update_conv')
next
  case (JArr xs)
  from assms(2) JArr obtain i where i: "array_index k = Some i" "i \<le> length xs"
    and pre: "list_all js_truthy (take i xs)" and v: "js_truthy v"
    by (auto simp: in_place_def firm_def split: option.splits)
  have w: "written node k v = JArr (take i xs @ v # drop (Suc i) xs)"
  proof (cases "i < length xs")
    case True
    then show ?thesis
      using JArr i by (simp add: written_def upd_conv_take_nth_drop)
  next
    case False
    with i have "i = length xs" by simp
    then show ?thesis using JArr i by (simp add: written_def)
  qed
  from filter_keeps_entry [OF i(2) pre v, of "drop (Suc i) xs"]
  show ?thesis
    using assms(3) i by (simp add: w compact_def)
qed (use assms(1) in \<open>simp_all add: assignable_def\<close>)

lemma in_place_link:
  "firm node k \<Longrightarrow> in_place node k (JLink c)"
  by (cases node) (simp_all add: in_place_def)

subsection \<open>Counting the calls\<close>

lemma calls_append [simp]:
  "resolve_calls (xs @ ys) = resolve_calls xs + resolve_calls ys"
  "put_calls (xs @ ys) = put_calls xs + put_calls ys"
  by (simp_all add: resolve_calls_def put_calls_def)

lemma calls_simps [simp]:
  "resolve_calls [] = 0" "put_calls [] = 0"
  "resolve_calls (DagResolve c p # es) = Suc (resolve_calls es)"
  "resolve_calls (DagGet c p # es) = resolve_calls es"
  "resolve_calls (DagPut v # es) = resolve_calls es"
  "put_calls (DagResolve c p # es) = put_calls es"
  "put_calls (DagGet c p # es) = put_calls es"
  "put_calls (DagPut v # es) = Suc (put_calls es)"
  by (simp_all add: resolve_calls_def put_calls_def)

subsection \<open>Each call removes a level from the path\<close>

lemma count_drop_le: "count_list (drop n s) c \<le> count_list s c"
proof -
  have "count_list s c = count_list (take n s) c + count_list (drop n s) c"
    by (metis append_take_drop_id count_list_append)
  then show ?thesis by simp
qed

lemma js_replace_count_le: "count_list (js_replace pat s) c \<le> count_list s c"
proof (induction s)
  case Nil
  then show ?case by simp
next
  case (Cons x s)
  show ?case
  proof (cases "take (length pat) (x # s) = pat")
    case True
    then have "js_replace pat (x # s) = drop (length pat) (x # s)" by simp
    then show ?thesis by (simp only: count_drop_le)
  next
    case False
    with Cons show ?thesis by simp
  qed
qed

lemma js_replace_count_occurs:
  "pat \<noteq> [] \<Longrightarrow>
   count_list (js_replace pat (a @ pat @ b)) c + count_list pat c = count_list (a @ pat @ b) c"
proof (induction a)
  case Nil
  then show ?case by (cases pat) auto
next
  case (Cons x a)
  show ?case
  proof (cases "take (length pat) (x # a @ pat @ b) = pat")
    case True
    then have r: "js_replace pat ((x # a) @ pat @ b) = drop (length pat) (x # a @ pat @ b)"
      by simp
    have "count_list (x # a @ pat @ b) c
        = count_list (take (length pat) (x # a @ pat @ b)) c
          + count_list (drop (length pat) (x # a @ pat @ b)) c"
      by (metis append_take_drop_id count_list_append)
    with True r show ?thesis by simp
  next
    case False
    with Cons show ?thesis by simp
  qed
qed

lemma parentPath_count:
  assumes "CHR ''/'' \<in> set path"
  shows "count_list (parentPath path) CHR ''/'' < count_list path CHR ''/''"
proof -
  from assms obtain a where a: "path = a @ CHR ''/'' # lastPathSegment path"
    unfolding lastPathSegment_def using split_last_suffix by blast
  let ?pat = "CHR ''/'' # lastPathSegment path"
  have "count_list (js_replace ?pat (a @ ?pat @ [])) CHR ''/'' + count_list ?pat CHR ''/''
      = count_list (a @ ?pat @ []) CHR ''/''"
    by (rule js_replace_count_occurs) simp
  with a have "count_list (parentPath path) CHR ''/'' + count_list ?pat CHR ''/''
      = count_list path CHR ''/''"
    unfolding parentPath_def by simp
  then show ?thesis by simp
qed

lemma js_split_parts_no_sep: "s \<in> set (js_split c p) \<Longrightarrow> c \<notin> set s"
proof (induction p arbitrary: s)
  case Nil
  then show ?case by simp
next
  case (Cons x p)
  obtain t ts where sp: "js_split c p = t # ts"
    using js_split_nonempty [of c p] by (cases "js_split c p") auto
  with Cons show ?case by (auto split: if_splits)
qed

lemma path_parts_segments: "list_all segment (path_parts p)"
  unfolding path_parts_def list_all_iff segment_def
  using js_split_parts_no_sep by auto

lemma resolve_walk_remainder:
  "resolve_walk s B c segs = Inr (c', rem) \<Longrightarrow> list_all segment segs \<Longrightarrow>
   rem = [] \<or> hd rem \<noteq> CHR ''/''"
proof (induction segs arbitrary: c)
  case Nil
  then show ?case by (auto split: if_splits)
next
  case (Cons k rest)
  have k: "k \<noteq> []" "CHR ''/'' \<notin> set k"
    using Cons.prems(2) by (simp_all add: segment_def)
  then have "hd k \<noteq> CHR ''/''"
    by (metis hd_in_set)
  with k have "hd (js_join ''/'' (k # rest)) \<noteq> CHR ''/''"
    by (cases rest) (simp_all add: hd_append)
  with Cons show ?case
    by (auto split: if_splits option.splits jsval.splits)
qed

lemma resolve_path_remainder:
  assumes "resolve_path s B root p = Inr (c, rem)"
  shows "rem = [] \<or> hd rem \<noteq> CHR ''/''"
  using assms resolve_walk_remainder [OF _ path_parts_segments]
  unfolding resolve_path_def by (auto split: if_splits)

lemma js_replace_keeps_head:
  assumes "rem \<noteq> []" and "hd rem \<noteq> x"
  shows "js_replace rem (x # t) = x # js_replace rem t"
proof -
  have "take (length rem) (x # t) \<noteq> rem"
    using assms by (cases rem) auto
  then show ?thesis by simp
qed

lemma putPath_body_Recurse_slash:
  assumes "putPath_body a w root path data opts = (Inr (Recurse p c), w')"
  shows "p \<noteq> [] \<and> hd p = CHR ''/'' \<and> count_list p CHR ''/'' < count_list path CHR ''/''"
proof -
  from assms obtain cid rem where
    res: "resolve_path (resolve_strict a) (blocks w) root (parentPath path) = Inr (cid, rem)"
    and p: "p = (if rem = [] then parentPath path else js_replace rem (parentPath path))"
    and pne: "p \<noteq> []"
    unfolding putPath_body_def dag_resolve_def Let_def
    by (auto split: if_splits sum.splits prod.splits)
  have ne: "parentPath path \<noteq> []"
    using p pne by (auto split: if_splits)
  with res have hd: "hd (parentPath path) = CHR ''/''"
    using resolve_path_ok by blast
  from ne hd obtain t where t: "parentPath path = CHR ''/'' # t"
    by (cases "parentPath path") auto
  have slash: "CHR ''/'' \<in> set path"
  proof (rule ccontr)
    assume "CHR ''/'' \<notin> set path"
    then have "parentPath path = path" by (rule parentPath_no_sep)
    with t \<open>CHR ''/'' \<notin> set path\<close> show False by (cases path) auto
  qed
  have "hd p = CHR ''/''"
  proof (cases "rem = []")
    case True
    with p hd show ?thesis by simp
  next
    case False
    with res have "hd rem \<noteq> CHR ''/''" using resolve_path_remainder by blast
    with False have "js_replace rem (CHR ''/'' # t) = CHR ''/'' # js_replace rem t"
      by (rule js_replace_keeps_head)
    with False p t show ?thesis by (simp del: js_replace.simps)
  qed
  moreover have "count_list p CHR ''/'' \<le> count_list (parentPath path) CHR ''/''"
    using p js_replace_count_le by auto
  ultimately show ?thesis
    using pne parentPath_count [OF slash] by simp
qed

subsection \<open>The calls of one level and of the recursion\<close>

lemma calls_snoc [simp]:
  "resolve_calls (es @ [e]) = resolve_calls es + (case e of DagResolve c p \<Rightarrow> 1 | _ \<Rightarrow> 0)"
  "put_calls (es @ [e]) = put_calls es + (case e of DagPut v \<Rightarrow> 1 | _ \<Rightarrow> 0)"
  by (simp_all add: resolve_calls_def put_calls_def split: event.splits)

lemma edit_node_calls:
  assumes "edit_node a w v p d opts = (r, w')"
  shows "resolve_calls (trace w') = resolve_calls (trace w)
       \<and> put_calls (trace w') \<le> put_calls (trace w) + (if configured (parentSchema opts) then 1 else 0)"
  using assms unfolding edit_node_def dag_put_def emit_def Let_def
  by (auto split: sum.splits if_splits prod.splits option.splits)

lemma pin_blocks_calls:
  assumes "pin_blocks a w v bs opts = (r, w')"
  shows "resolve_calls (trace w') = resolve_calls (trace w) \<and> put_calls (trace w') = put_calls (trace w)"
  using assms unfolding pin_blocks_def emit_def
  by (auto simp: resolve_calls_def put_calls_def split: if_splits)

lemma dag_put_calls:
  assumes "dag_put a w v = (r, w')"
  shows "resolve_calls (trace w') = resolve_calls (trace w) \<and> put_calls (trace w') = put_calls (trace w) + 1"
  using assms unfolding dag_put_def emit_def by (auto split: option.splits)

lemma dag_get_calls:
  assumes "dag_get w c p = (r, w')"
  shows "resolve_calls (trace w') = resolve_calls (trace w) \<and> put_calls (trace w') = put_calls (trace w)"
  using assms unfolding dag_get_def emit_def by auto

lemma dag_resolve_calls:
  assumes "dag_resolve a w c p = (r, w')"
  shows "resolve_calls (trace w') = resolve_calls (trace w) + 1 \<and> put_calls (trace w') = put_calls (trace w)"
  using assms unfolding dag_resolve_def emit_def by auto

lemma putPath_body_calls:
  assumes "putPath_body a w root path data opts = (r, w')"
  shows "resolve_calls (trace w') \<le> resolve_calls (trace w) + 1
       \<and> put_calls (trace w') + resolve_calls (trace w)
           \<le> put_calls (trace w) + resolve_calls (trace w')
              + (if configured (parentSchema opts) then 1 else 0)"
proof (cases "configured (leafSchema opts) \<and> toRepresentation a (the (leafSchema opts)) data = JUndefined")
  case True
  with assms have "w' = w" unfolding putPath_body_def by (simp add: Let_def)
  then show ?thesis by simp
next
  case False
  define newData where "newData =
    (if configured (leafSchema opts) then toRepresentation a (the (leafSchema opts)) data else data)"
  obtain r1 w1 where 1: "dag_resolve a w root (parentPath path) = (r1, w1)" by fastforce
  note c1 = dag_resolve_calls [OF 1]
  show ?thesis
  proof (cases r1)
    case (Inl e)
    with assms False 1 have "w' = w1" unfolding putPath_body_def by (auto simp: Let_def split: if_splits)
    with c1 show ?thesis by simp
  next
    case (Inr cr)
    obtain cid rem where cr: "cr = (cid, rem)" by fastforce
    obtain r2 w2 where 2: "dag_get w1 cid [] = (r2, w2)" by fastforce
    note c2 = dag_get_calls [OF 2]
    show ?thesis
    proof (cases r2)
      case (Inl e)
      with assms False 1 Inr cr 2 have "w' = w2" unfolding putPath_body_def by (auto simp: Let_def split: if_splits)
      with c1 c2 show ?thesis by simp
    next
      case val: (Inr val)
      define nestedPath where "nestedPath =
        (if rem = [] then CHR ''/'' # lastPathSegment path
         else ''/'' @ rem @ ''/'' @ lastPathSegment path)"
      obtain r3 w3 where 3: "edit_node a w2 val nestedPath newData opts = (r3, w3)" by fastforce
      note c3 = edit_node_calls [OF 3]
      show ?thesis
      proof (cases r3)
        case (Inl e)
        with assms False 1 Inr cr 2 val 3 have "w' = w3"
          unfolding putPath_body_def newData_def nestedPath_def by (auto simp: Let_def split: if_splits)
        with c1 c2 c3 show ?thesis by (auto split: if_splits)
      next
        case nv: (Inr nv)
        obtain newValue innerBlocks where nvb: "nv = (newValue, innerBlocks)" by fastforce
        obtain r4 w4 where 4: "dag_put a w3 newValue = (r4, w4)" by fastforce
        note c4 = dag_put_calls [OF 4]
        show ?thesis
        proof (cases r4)
          case (Inl e)
          with assms False 1 Inr cr 2 val 3 nv nvb 4 have "w' = w4"
            unfolding putPath_body_def newData_def nestedPath_def by (auto simp: Let_def split: if_splits)
          with c1 c2 c3 c4 show ?thesis by (auto split: if_splits)
        next
          case nc: (Inr newCid)
          obtain r5 w5 where 5: "pin_blocks a w4 newValue innerBlocks opts = (r5, w5)" by fastforce
          note c5 = pin_blocks_calls [OF 5]
          from assms False 1 Inr cr 2 val 3 nv nvb 4 nc 5 have "w' = w5"
            unfolding putPath_body_def newData_def nestedPath_def
            by (auto simp: Let_def split: sum.splits if_splits)
          with c1 c2 c3 c4 c5 show ?thesis by (auto split: if_splits)
        qed
      qed
    qed
  qed
qed

lemma putPath_calls:
  "resolve_calls (trace (snd (putPath a w root path data opts)))
     \<le> resolve_calls (trace w) + max 1 (count_list path CHR ''/'')
   \<and> put_calls (trace (snd (putPath a w root path data opts))) + resolve_calls (trace w)
     \<le> put_calls (trace w) + resolve_calls (trace (snd (putPath a w root path data opts)))
        + (if configured (parentSchema opts) then 1 else 0)"
proof (induction a w root path data opts rule: putPath.induct)
  case (1 a w root path data opts)
  obtain r w1 where body: "putPath_body a w root path data opts = (r, w1)" by fastforce
  note bc = putPath_body_calls [OF body]
  show ?case
  proof (cases r)
    case (Inl e)
    with body have "putPath a w root path data opts = (Inl e, w1)"
      by (subst putPath.simps) simp
    with bc show ?thesis by (auto simp: max_def)
  next
    case (Inr s)
    show ?thesis
    proof (cases s)
      case (Done c)
      with body Inr have "putPath a w root path data opts = (Inr c, w1)"
        by (subst putPath.simps) simp
      with bc show ?thesis by (auto simp: max_def)
    next
      case (Recurse p c)
      let ?opts = "\<lparr>leafSchema = None, parentSchema = None, pin = pin opts\<rparr>"
      from body Inr Recurse have step:
        "putPath a w root path data opts = putPath a w1 root p (JLink c) ?opts"
        by (subst putPath.simps) simp
      have sl: "p \<noteq> [] \<and> hd p = CHR ''/'' \<and> count_list p CHR ''/'' < count_list path CHR ''/''"
        using body Inr Recurse putPath_body_Recurse_slash by blast
      then have one: "1 \<le> count_list p CHR ''/''"
        by (cases p) auto
      have IH: "resolve_calls (trace (snd (putPath a w1 root p (JLink c) ?opts)))
           \<le> resolve_calls (trace w1) + max 1 (count_list p CHR ''/'')
         \<and> put_calls (trace (snd (putPath a w1 root p (JLink c) ?opts))) + resolve_calls (trace w1)
           \<le> put_calls (trace w1) + resolve_calls (trace (snd (putPath a w1 root p (JLink c) ?opts)))"
        using "1.IH" [OF body [symmetric] Inr Recurse] by (simp add: configured_def)
      show ?thesis
        unfolding step using IH bc sl one by (auto simp: max_def split: if_splits)
    qed
  qed
qed

subsection \<open>One level on a block of its own\<close>

lemma pin_blocks_ok:
  assumes "uploads_succeed a opts"
  shows "\<exists>w'. pin_blocks a w v bs opts = (Inr (), w') \<and> blocks w' = blocks w \<and> docs w' = docs w"
  using assms unfolding uploads_succeed_def pin_blocks_def emit_def by auto

lemma putPath_body_edit:
  assumes segs: "list_all segment (ks @ [k])"
    and amb: "list_all (\<lambda>x. \<not> starts_with x k) ks"
    and res: "resolve_path (resolve_strict a) (blocks w) root (path_of ks) = Inr (c, [])"
    and c: "c \<in> blocks w"
    and edit: "(if is_nullish D then js_delete (js a) (block_of c) k
                else js_set (js a) (block_of c) k D) = Inr nv"
    and enc: "encodable (compact nv)"
    and opts: "\<not> configured (leafSchema opts)" "\<not> configured (parentSchema opts)"
      "uploads_succeed a opts"
  shows "\<exists>w1. putPath_body a w root (path_of (ks @ [k])) D opts =
           (Inr (if ks = [] then Done (CID (compact nv))
                 else Recurse (path_of ks) (CID (compact nv))), w1)
         \<and> blocks w1 = insert (CID (compact nv)) (blocks w)
         \<and> docs w1 = docs w
         \<and> resolve_calls (trace w1) = resolve_calls (trace w) + 1
         \<and> put_calls (trace w1) = put_calls (trace w) + 1"
proof -
  let ?nv = "compact nv"
  let ?w3 = "w\<lparr>blocks := insert (CID ?nv) (blocks w),
              trace := trace w @ [DagResolve root (path_of ks), DagGet c [], DagPut ?nv]\<rparr>"
  have pp: "parentPath (path_of (ks @ [k])) = path_of ks"
    using segs amb by (rule parentPath_path_of)
  have lp: "lastPathSegment (path_of (ks @ [k])) = k"
    using segs by (rule lastPathSegment_path_of)
  have k: "segment k" using segs by simp
  have inner: "putInnerPath (js a) (block_of c) (CHR ''/'' # k) D = Inr nv"
    using edit by (simp only: putInnerPath_field [OF k])
  have root: "ks \<noteq> [] \<Longrightarrow> path_of ks \<noteq> ''/'' \<and> path_of ks \<noteq> []"
    using segs path_of_not_root by simp
  obtain w1 where pin: "pin_blocks a ?w3 ?nv [] opts = (Inr (), w1)"
    and w1: "blocks w1 = blocks ?w3" "docs w1 = docs ?w3"
    and calls: "resolve_calls (trace w1) = resolve_calls (trace ?w3)"
      "put_calls (trace w1) = put_calls (trace ?w3)"
    using pin_blocks_ok [OF opts(3)] pin_blocks_calls by metis
  have "putPath_body a w root (path_of (ks @ [k])) D opts =
           (Inr (if ks = [] then Done (CID ?nv) else Recurse (path_of ks) (CID ?nv)), w1)"
    unfolding putPath_body_def pp lp
    using opts(1,2) res c enc root pin
    by (simp add: dag_resolve_def dag_get_def path_parts_def emit_def edit_node_def inner
        dag_put_def stored_form_def Let_def)
  with w1 calls show ?thesis by simp
qed

subsection \<open>All levels on a tree of linked blocks\<close>

lemma putPath_chain:
  assumes "list_all segment (ks @ [k])"
    and "unambiguous (ks @ [k])"
    and "block_chain (blocks w) root ks"
    and "(if is_nullish D then js_delete (js a) (block_of (chain_end root ks)) k
          else js_set (js a) (block_of (chain_end root ks)) k D) = Inr nv"
    and "encodable (compact nv)"
    and "\<not> configured (leafSchema opts)" and "\<not> configured (parentSchema opts)"
    and "uploads_succeed a opts"
  shows "\<exists>r w'. putPath a w root (path_of (ks @ [k])) D opts = (Inr r, w')
           \<and> blocks w \<subseteq> blocks w' \<and> r \<in> blocks w' \<and> CID (compact nv) \<in> blocks w'
           \<and> docs w' = docs w
           \<and> resolve_calls (trace w') = resolve_calls (trace w) + length ks + 1
           \<and> put_calls (trace w') = put_calls (trace w) + length ks + 1
           \<and> (firm_chain root ks \<longrightarrow>
                get_walk (blocks w') (block_of r) ks = Inr (compact nv))"
  using assms
proof (induction ks arbitrary: k D nv w opts rule: rev_induct)
  case Nil
  have res: "resolve_path (resolve_strict a) (blocks w) root (path_of []) = Inr (root, [])"
    by (simp add: resolve_path_def)
  have c: "root \<in> blocks w" using Nil.prems(3) by simp
  have edit: "(if is_nullish D then js_delete (js a) (block_of root) k
               else js_set (js a) (block_of root) k D) = Inr nv"
    using Nil.prems(4) by (simp only: chain_end.simps)
  obtain w1 where
    body: "putPath_body a w root (path_of ([] @ [k])) D opts = (Inr (Done (CID (compact nv))), w1)"
    and w1: "blocks w1 = insert (CID (compact nv)) (blocks w)" "docs w1 = docs w"
      "resolve_calls (trace w1) = resolve_calls (trace w) + 1"
      "put_calls (trace w1) = put_calls (trace w) + 1"
    using putPath_body_edit [OF Nil.prems(1) _ res c edit Nil.prems(5-8)] by auto
  have "putPath a w root (path_of ([] @ [k])) D opts = (Inr (CID (compact nv)), w1)"
    by (subst putPath.simps, unfold body) simp
  then show ?case
    using w1 by (intro exI [of _ "CID (compact nv)"] exI [of _ w1]) auto
next
  case (snoc k' ks')
  let ?B = "blocks w"
  let ?ks = "ks' @ [k']"
  let ?c = "chain_end root ?ks"
  let ?c' = "chain_end root ks'"
  let ?opts = "\<lparr>leafSchema = None, parentSchema = None, pin = pin opts\<rparr>"
  let ?D = "JLink (CID (compact nv))"
  let ?nv' = "written (block_of ?c') k' ?D"
  have segs: "list_all segment ?ks" using snoc.prems(1) by simp
  have una: "unambiguous ?ks" and amb: "list_all (\<lambda>x. \<not> starts_with x k) ?ks"
    using snoc.prems(2) by (simp_all only: unambiguous_snoc)
  have res: "resolve_path (resolve_strict a) ?B root (path_of ?ks) = Inr (?c, [])"
    using segs snoc.prems(3) by (rule block_chain_resolve_path)
  have c: "?c \<in> ?B"
    using block_chain_resolve [OF snoc.prems(3)] by simp
  obtain w1 where
    body: "putPath_body a w root (path_of (?ks @ [k])) D opts
             = (Inr (Recurse (path_of ?ks) (CID (compact nv))), w1)"
    and w1: "blocks w1 = insert (CID (compact nv)) ?B" "docs w1 = docs w"
      "resolve_calls (trace w1) = resolve_calls (trace w) + 1"
      "put_calls (trace w1) = put_calls (trace w) + 1"
    using putPath_body_edit [OF snoc.prems(1) amb res c snoc.prems(4-8)] by auto
  have step: "putPath a w root (path_of (?ks @ [k])) D opts
                = putPath a w1 root (path_of ?ks) ?D ?opts"
    by (subst putPath.simps, unfold body) simp
  have chain0: "block_chain ?B root ks'"
    using snoc.prems(3) by (rule block_chain_prefix)
  have chain: "block_chain (blocks w1) root ks'"
    using chain0 by (rule block_chain_mono [rotated]) (simp add: w1 subset_insertI)
  have own: "own_prop (block_of ?c') k' = Some (JLink ?c)"
    using snoc.prems(3) by (rule block_chain_last)
  have edit': "(if is_nullish ?D then js_delete (js a) (block_of ?c') k'
                else js_set (js a) (block_of ?c') k' ?D) = Inr ?nv'"
    using assignable_set [OF own_assignable [OF own]] by (simp add: is_nullish_def)
  have enc': "encodable (compact ?nv')"
    using block_chain_resolve [OF chain0] own_assignable [OF own]
    by (intro encodable_written) simp_all
  have up: "uploads_succeed a ?opts"
    using snoc.prems(8) by (simp add: uploads_succeed_def)
  from snoc.IH [OF segs una chain edit' enc' _ _ up]
  obtain r w' where
    put: "putPath a w1 root (path_of ?ks) ?D ?opts = (Inr r, w')"
    and sub: "blocks w1 \<subseteq> blocks w'" and r: "r \<in> blocks w'" and docs: "docs w' = docs w1"
    and rc: "resolve_calls (trace w') = resolve_calls (trace w1) + length ks' + 1"
    and pc: "put_calls (trace w') = put_calls (trace w1) + length ks' + 1"
    and walk': "firm_chain root ks' \<longrightarrow>
                  get_walk (blocks w') (block_of r) ks' = Inr (compact ?nv')"
    by (auto simp: configured_def)
  have nv: "CID (compact nv) \<in> blocks w'" using sub w1 by auto
  have get: "get_walk (blocks w') (block_of r) ?ks = Inr (compact nv)"
    if st: "firm_chain root ?ks"
  proof -
    have st': "firm_chain root ks'" and firm: "firm (block_of ?c') k'"
      using firm_chain_snoc [OF st] by simp_all
    have inp: "in_place (block_of ?c') k' ?D"
      using firm by (rule in_place_link)
    have "own_prop (compact ?nv') k' = Some ?D"
      using own_assignable [OF own] inp by (rule compact_written_own) simp
    then show ?thesis
      using walk' st' nv
      by (simp only: get_walk_append [of _ _ ks'] get_walk_single) (simp add: settle_def)
  qed
  show ?case
    using step put sub r docs get rc pc w1 nv
    by (intro exI [of _ r] exI [of _ w']) auto
qed

lemma get_reads_walk:
  assumes "r \<in> blocks w" and "list_all segment ks"
    and "get_walk (blocks w) (block_of r) ks = Inr v"
  shows "fst (get a w r (path_of ks) None) = Inr v"
  using assms by (simp add: get_def dag_get_def path_parts_path_of configured_def)

lemma count_path_of:
  "list_all segment ks \<Longrightarrow> count_list (path_of ks) CHR ''/'' = length ks"
  by (induction ks) (simp_all add: segment_def count_list_0_iff)

lemma js_replace_remainder:
  assumes "segment p"
  shows "js_replace p (CHR ''/'' # p) = ''/''"
proof -
  from assms have "p \<noteq> []" and "hd p \<noteq> CHR ''/''"
    by (simp add: segment_def, metis hd_in_set segment_def)
  then have "js_replace p (CHR ''/'' # p) = CHR ''/'' # js_replace p p"
    by (rule js_replace_keeps_head)
  with \<open>p \<noteq> []\<close> show ?thesis by (simp add: js_replace_self del: js_replace.simps)
qed

subsection \<open>A parent held inline in the root node\<close>

lemma encodable_own:
  "encodable node \<Longrightarrow> own_prop node k = Some v \<Longrightarrow> encodable v"
proof (cases node)
  case (JObj kvs)
  assume "encodable node" and "own_prop node k = Some v"
  with JObj show ?thesis using encodable_field [of kvs k v] by simp
next
  case (JArr xs)
  assume "encodable node" and "own_prop node k = Some v"
  with JArr show ?thesis
    by (auto simp: list_all_iff split: option.splits if_splits)
qed simp_all

lemma encodable_written_fits:
  assumes "encodable node" and "encodable v" and "fits node k"
    and "assignable e node k"
  shows "encodable (written node k v)"
proof (cases node)
  case (JObj kvs)
  with assms show ?thesis
    using encodable_update [of kvs v k] assignable_field_name [of kvs e k]
    by (simp add: written_def)
next
  case (JArr xs)
  from assms(3) JArr obtain i where i: "array_index k = Some i" "i \<le> length xs"
    by (auto simp: fits_def split: option.splits)
  have "\<forall>x\<in>set (xs[i := v]). encodable x"
    using assms(1,2) JArr set_update_subset_insert [of xs i v] by (auto simp: list_all_iff)
  then show ?thesis
    using JArr i assms(1,2) by (simp add: written_def list_all_iff)
qed (use assms(1,2) in \<open>simp_all add: written_def\<close>)

lemma assignable_container:
  "assignable e node k \<Longrightarrow> js_truthy (written node k v) \<and> written node k v \<noteq> JUndefined
     \<and> (\<forall>c. written node k v \<noteq> JLink c)"
  by (cases node) (auto simp: assignable_def written_def split: option.splits)

lemma own_prop_node:
  "own_prop node k = Some u \<Longrightarrow> \<not> is_nullish node"
  by (cases node) (simp_all add: is_nullish_def)

lemma in_place_container:
  "firm node k \<Longrightarrow> js_truthy v \<Longrightarrow> in_place node k v"
  by (cases node) (simp_all add: in_place_def)

text \<open>
  The first level of \<^verbatim>\<open>putPath\<close> for \<^verbatim>\<open>/p/k\<close> on a root that holds a container under
  \<open>p\<close>: the new root, and the world before the upload.
\<close>

lemma putPath_inline:
  assumes p: "segment p" and k: "segment k" and amb: "\<not> starts_with p k"
    and root: "root \<in> blocks w" "encodable (block_of root)" "firm (block_of root) p"
    and own: "own_prop (block_of root) p = Some inner" and notlink: "\<forall>c. inner \<noteq> JLink c"
    and asg: "assignable (js a) inner k" and inp: "fits inner k"
    and X: "\<not> is_nullish X" "encodable X"
    and opts: "\<not> configured (leafSchema opts)" "\<not> configured (parentSchema opts)"
  shows "putPath a w root (path_of [p, k]) X opts =
           (case pin_blocks a
                   (w\<lparr>blocks := insert (CID (compact (written (block_of root) p (written inner k X))))
                          (blocks w),
                      trace := trace w @ [DagResolve root (path_of [p]), DagGet root [],
                          DagPut (compact (written (block_of root) p (written inner k X)))]\<rparr>)
                   (compact (written (block_of root) p (written inner k X))) [] opts of
              (Inl e, w') \<Rightarrow> (Inl e, w')
            | (Inr u, w') \<Rightarrow>
                (Inr (CID (compact (written (block_of root) p (written inner k X)))), w'))"
proof -
  let ?inner = "written inner k X"
  let ?root = "written (block_of root) p ?inner"
  have segs: "list_all segment ([p] @ [k])" using p k by simp
  have amb': "list_all (\<lambda>x. \<not> starts_with x k) [p]" using amb by simp
  have pp: "parentPath (path_of [p, k]) = path_of [p]"
    using parentPath_path_of [OF segs amb'] by simp
  have lp: "lastPathSegment (path_of [p, k]) = k"
    using lastPathSegment_path_of [OF segs] by simp
  have walk: "resolve_walk (resolve_strict a) (blocks w) root [p] = Inr (root, p)"
    using root(1) own notlink by (cases inner) simp_all
  have rp: "resolve_path (resolve_strict a) (blocks w) root (CHR ''/'' # p) = Inr (root, p)"
    using resolve_path_path_of [of "[p]"] p walk by simp
  have pne: "p \<noteq> []" using p by (simp add: segment_def)
  note rem = js_replace_remainder [OF p]
  have read: "js_prop (js a) (block_of root) p = Inr inner"
    using own own_prop_node [OF own] by (simp add: js_prop_def)
  have set1: "js_set (js a) inner k X = Inr ?inner"
    using asg by (rule assignable_set)
  have set2: "js_set (js a) (block_of root) p ?inner = Inr ?root"
    using own_assignable [OF own] by (rule assignable_set)
  have edit: "putInnerPath (js a) (block_of root) (CHR ''/'' # p @ CHR ''/'' # k) X = Inr ?root"
    using putInnerPath_nested [OF p k, of "js a" "block_of root" X] X(1)
    by (simp add: read set1 set2)
  have "encodable ?inner"
    using encodable_own [OF root(2) own] X(2) inp asg by (rule encodable_written_fits)
  with root(2) have enc: "encodable (compact ?root)"
    using own_assignable [OF own] by (rule encodable_written)
  have body: "putPath_body a w root (path_of [p, k]) X opts =
      (case pin_blocks a
              (w\<lparr>blocks := insert (CID (compact ?root)) (blocks w),
                 trace := trace w @ [DagResolve root (path_of [p]), DagGet root [],
                     DagPut (compact ?root)]\<rparr>) (compact ?root) [] opts of
         (Inl e, w') \<Rightarrow> (Inl e, w')
       | (Inr u, w') \<Rightarrow> (Inr (Done (CID (compact ?root))), w'))"
    unfolding putPath_body_def pp lp
    using root(1) opts enc pne
    by (simp add: dag_resolve_def rp dag_get_def path_parts_def emit_def edit_node_def
        edit rem dag_put_def stored_form_def Let_def del: js_replace.simps
        split: prod.splits sum.splits)
  show ?thesis
    by (subst putPath.simps, unfold body) (simp split: prod.splits sum.splits)
qed


section \<open>Deletion and compaction\<close>

text \<open>
  C1. The compaction after an edit is \<^verbatim>\<open>filter((v) => v)\<close>, under the comment "Filter
  undefined from arrays": it removes every falsy entry, not only the hole that the
  deletion left. Deleting index 1 of the block \<^verbatim>\<open>[0, "b", "c"]\<close> stores \<^verbatim>\<open>["c"]\<close>: the
  entry \<^verbatim>\<open>0\<close>, which was present, is gone as well.
\<close>

theorem compaction_drops_falsy_entry:
  "fst (deletePath example_api (fresh_world {CID falsy_array}) (CID falsy_array) ''/1'' no_opts)
     = Inr (CID (JArr [JStr ''c'']))"
  by (simp add: deletePath_def falsy_array_def putPath.simps eval_defs putInnerPath.simps)

section \<open>Recursion depth\<close>

text \<open>
  C2, as the code has it. \<^verbatim>\<open>putPath\<close> is total: each call hands a strictly shorter path
  with fewer levels to the next (this is its termination proof). The number of calls,
  counted as calls of the resolver, is at most the number of \<^verbatim>\<open>/\<close> in the path, or
  one; the nodes persisted are at most as many as the calls, and one more when
  \<open>parentSchema\<close> is configured. The number of calls and the number of persisted nodes
  are both equal to the number of segments of the path when every node along the path
  is held in a block of its own, no segment begins with the name of a later one, no
  schema is configured, every requested upload succeeds, and the last node, an object
  or a sequence, carries out the edit itself: a deletion that is not of the length of a
  sequence, or the assignment of an encodable value to a stored field, to an index, or
  to a name that is not built in.
\<close>

theorem putPath_recursion_depth:
  "(putPath_body a w root path data opts = (Inr (Recurse p c), w1)
      \<longrightarrow> length p < length path \<and> count_list p CHR ''/'' < count_list path CHR ''/'')
   \<and> resolve_calls (trace (snd (putPath a w root path data opts)))
     \<le> resolve_calls (trace w) + max 1 (count_list path CHR ''/'')
   \<and> put_calls (trace (snd (putPath a w root path data opts))) + resolve_calls (trace w)
     \<le> put_calls (trace w) + resolve_calls (trace (snd (putPath a w root path data opts)))
        + (if configured (parentSchema opts) then 1 else 0)
   \<and> (list_all segment (ks @ [k]) \<and> unambiguous (ks @ [k]) \<and> block_chain (blocks w) root ks
        \<and> (if is_nullish data then removable (block_of (chain_end root ks)) k
            else assignable (js a) (block_of (chain_end root ks)) k \<and> encodable data)
        \<and> \<not> configured (leafSchema opts) \<and> \<not> configured (parentSchema opts)
        \<and> uploads_succeed a opts
      \<longrightarrow> count_list (path_of (ks @ [k])) CHR ''/'' = length (ks @ [k])
        \<and> resolve_calls (trace (snd (putPath a w root (path_of (ks @ [k])) data opts)))
            = resolve_calls (trace w) + length (ks @ [k])
        \<and> put_calls (trace (snd (putPath a w root (path_of (ks @ [k])) data opts)))
            = put_calls (trace w) + length (ks @ [k]))"
proof (intro conjI impI)
  assume "putPath_body a w root path data opts = (Inr (Recurse p c), w1)"
  then show "length p < length path"
    and "count_list p CHR ''/'' < count_list path CHR ''/''"
    using putPath_body_Recurse putPath_body_Recurse_slash by blast+
next
  show "resolve_calls (trace (snd (putPath a w root path data opts)))
     \<le> resolve_calls (trace w) + max 1 (count_list path CHR ''/'')"
    using putPath_calls by blast
  show "put_calls (trace (snd (putPath a w root path data opts))) + resolve_calls (trace w)
     \<le> put_calls (trace w) + resolve_calls (trace (snd (putPath a w root path data opts)))
        + (if configured (parentSchema opts) then 1 else 0)"
    using putPath_calls by blast
next
  let ?node = "block_of (chain_end root ks)"
  assume h: "list_all segment (ks @ [k]) \<and> unambiguous (ks @ [k]) \<and> block_chain (blocks w) root ks
        \<and> (if is_nullish data then removable ?node k
            else assignable (js a) ?node k \<and> encodable data)
        \<and> \<not> configured (leafSchema opts) \<and> \<not> configured (parentSchema opts)
        \<and> uploads_succeed a opts"
  then show "count_list (path_of (ks @ [k])) CHR ''/'' = length (ks @ [k])"
    by (simp only: count_path_of)
  have node: "encodable ?node"
    using h block_chain_resolve by blast
  have "\<exists>nv. (if is_nullish data then js_delete (js a) ?node k
               else js_set (js a) ?node k data) = Inr nv \<and> encodable (compact nv)"
  proof (cases "is_nullish data")
    case True
    with h have "removable ?node k" by simp
    from removable_delete [OF this, of "js a"] node True show ?thesis by auto
  next
    case False
    with h have "assignable (js a) ?node k" and "encodable data" by simp_all
    with node False show ?thesis
      using assignable_set [of "js a" ?node k data]
        encodable_written [of ?node data "js a" k] by auto
  qed
  then obtain nv where edit: "(if is_nullish data then js_delete (js a) ?node k
               else js_set (js a) ?node k data) = Inr nv" and enc: "encodable (compact nv)"
    by blast
  from h putPath_chain [of ks k w root data a nv opts, OF _ _ _ edit enc]
  obtain r w' where put: "putPath a w root (path_of (ks @ [k])) data opts = (Inr r, w')"
    and rc: "resolve_calls (trace w') = resolve_calls (trace w) + length ks + 1"
    and pc: "put_calls (trace w') = put_calls (trace w) + length ks + 1"
    by blast
  show "resolve_calls (trace (snd (putPath a w root (path_of (ks @ [k])) data opts)))
            = resolve_calls (trace w) + length (ks @ [k])"
    unfolding put using rc by simp
  show "put_calls (trace (snd (putPath a w root (path_of (ks @ [k])) data opts)))
            = put_calls (trace w) + length (ks @ [k])"
    unfolding put using pc by simp
qed

theorem putPath_recursion_depth_witness:
  "putPath_body example_api (fresh_world {CID tree_root, CID tree_mid, CID tree_leaf})
       (CID tree_root) ''/a/b/c'' (JNum 5) no_opts
     = (Inr (Recurse ''/a/b'' (CID (JObj [(''c'', JNum 5)]))),
        (fresh_world {CID tree_root, CID tree_mid, CID tree_leaf})
          \<lparr>blocks := {CID (JObj [(''c'', JNum 5)]), CID tree_root, CID tree_mid, CID tree_leaf},
            trace := [DagResolve (CID tree_root) ''/a/b'', DagGet (CID tree_leaf) [],
                      DagPut (JObj [(''c'', JNum 5)])]\<rparr>)
   \<and> length ''/a/b'' < length ''/a/b/c''
   \<and> count_list ''/a/b'' CHR ''/'' < count_list ''/a/b/c'' CHR ''/''
   \<and> count_list ''/a/b/c'' CHR ''/'' = 3
   \<and> resolve_calls (trace (snd (putPath example_api
        (fresh_world {CID tree_root, CID tree_mid, CID tree_leaf}) (CID tree_root)
        ''/a/b/c'' (JNum 5) no_opts))) = 3
   \<and> put_calls (trace (snd (putPath example_api
        (fresh_world {CID tree_root, CID tree_mid, CID tree_leaf}) (CID tree_root)
        ''/a/b/c'' (JNum 5) no_opts))) = 3
   \<and> resolve_calls (trace (snd (putPath example_api
        (fresh_world {CID link_list, CID parcel_node, CID list_item}) (CID link_list)
        ''/1/k'' JNull no_opts))) = 2
   \<and> put_calls (trace (snd (putPath example_api
        (fresh_world {CID link_list, CID parcel_node, CID list_item}) (CID link_list)
        ''/1/k'' JNull no_opts))) = 2"
  using putPath_recursion_depth [of example_api
      "fresh_world {CID tree_root, CID tree_mid, CID tree_leaf}" "CID tree_root" "''/a/b/c''"
      "JNum 5" no_opts "''/a/b''" "CID (JObj [(''c'', JNum 5)])"
      "(fresh_world {CID tree_root, CID tree_mid, CID tree_leaf})
          \<lparr>blocks := {CID (JObj [(''c'', JNum 5)]), CID tree_root, CID tree_mid, CID tree_leaf},
            trace := [DagResolve (CID tree_root) ''/a/b'', DagGet (CID tree_leaf) [],
                      DagPut (JObj [(''c'', JNum 5)])]\<rparr>"
      "[''a'', ''b'']" "''c''"]
    putPath_recursion_depth [of example_api
      "fresh_world {CID link_list, CID parcel_node, CID list_item}" "CID link_list" "''/1/k''"
      JNull no_opts "[]" "CID JNull" "fresh_world {}" "[''1'']" "''k''"]
  by (simp add: segment_def starts_with_def tree_defs eval_defs putInnerPath.simps
      uploads_succeed_def assignable_def removable_def link_list_def list_item_def
      parcel_node_def Let_def)

text \<open>
  C2 as stated fails where a parent is held inline: the path \<^verbatim>\<open>/a/b\<close> has two levels,
  and on a root that holds \<^verbatim>\<open>a\<close> inline \<^verbatim>\<open>putPath\<close> makes one call and persists one node.
\<close>

theorem inline_path_takes_one_call:
  "count_list ''/a/b'' CHR ''/'' = 2
   \<and> fst (putPath example_api (fresh_world {CID inline_root}) (CID inline_root) ''/a/b''
            (JNum 5) no_opts)
       = Inr (CID (JObj [(''a'', JObj [(''b'', JNum 5)])]))
   \<and> resolve_calls (trace (snd (putPath example_api (fresh_world {CID inline_root})
        (CID inline_root) ''/a/b'' (JNum 5) no_opts))) = 1
   \<and> put_calls (trace (snd (putPath example_api (fresh_world {CID inline_root})
        (CID inline_root) ''/a/b'' (JNum 5) no_opts))) = 1"
  by (simp add: inline_root_def putPath.simps eval_defs putInnerPath.simps Let_def)

section \<open>Splitting the path\<close>

text \<open>
  C3. \<^verbatim>\<open>path.replace(`/${lastPathSegment}`, "")\<close> removes the first occurrence of the
  last segment, not the last one. For \<^verbatim>\<open>/a/b/a\<close> the last segment is \<^verbatim>\<open>a\<close> and the
  parent path is \<^verbatim>\<open>/b/a\<close>, not \<^verbatim>\<open>/a/b\<close>; on a tree that holds \<^verbatim>\<open>/a/b/a\<close> the
  resolver is asked for \<^verbatim>\<open>/b/a\<close> and the edit fails: with a TypeError after a
  resolver that leaves the remainder, and at the resolution with one that reports the
  missing segment.
\<close>

theorem parentPath_removes_first_occurrence:
  "lastPathSegment ''/a/b/a'' = ''a'' \<and> parentPath ''/a/b/a'' = ''/b/a'' \<and>
   putPath example_api (fresh_world {CID deep_root, CID deep_mid, CID deep_leaf})
       (CID deep_root) ''/a/b/a'' (JNum 5) no_opts
     = (Inl JsTypeError,
        (fresh_world {CID deep_root, CID deep_mid, CID deep_leaf})
          \<lparr>trace := [DagResolve (CID deep_root) ''/b/a'', DagGet (CID deep_root) []]\<rparr>) \<and>
   putPath strict_api (fresh_world {CID deep_root, CID deep_mid, CID deep_leaf})
       (CID deep_root) ''/a/b/a'' (JNum 5) no_opts
     = (Inl BlockStoreError,
        (fresh_world {CID deep_root, CID deep_mid, CID deep_leaf})
          \<lparr>trace := [DagResolve (CID deep_root) ''/b/a'']\<rparr>)"
  by (simp add: deep_root_def deep_mid_def deep_leaf_def putPath.simps strict_api_def eval_defs
      putInnerPath.simps)

section \<open>Intermediate containers\<close>

text \<open>
  C4, as the code has it. For a path \<^verbatim>\<open>/p/k\<close> whose parent \<open>p\<close> is not a link in the root
  node, the resolver leaves the remainder \<open>p\<close> when the root holds an object under \<open>p\<close>;
  the value is then placed at \<open>k\<close> inside that object (\<open>k\<close> a stored field of it or not
  a built-in name) and the new root is persisted. If the root has no field \<open>p\<close>, no
  container is created and nothing is persisted: with a resolver that reports the
  missing segment, \<^verbatim>\<open>putPath\<close> fails at the resolution; with one that leaves the
  remainder, as Section 4.1 has it, \<^verbatim>\<open>putInnerPath\<close> throws a TypeError after the root
  was resolved and read (\<open>p\<close> not a built-in name).
\<close>

theorem putPath_inline_parent:
  assumes "segment p" and "segment k" and "\<not> starts_with p k"
    and "root \<in> blocks w" and "block_of root = JObj kvs" and "encodable (JObj kvs)"
    and "\<not> is_nullish X" and "encodable X"
    and "\<not> configured (leafSchema opts)" and "\<not> configured (parentSchema opts)"
    and "\<not> pin opts"
  shows "(map_of kvs p = Some (JObj inner) \<and> assignable (js a) (JObj inner) k \<longrightarrow>
            putPath a w root (path_of [p, k]) X opts =
              (Inr (CID (JObj (AList.update p (JObj (AList.update k X inner)) kvs))),
               w\<lparr>blocks := insert (CID (JObj (AList.update p (JObj (AList.update k X inner)) kvs)))
                    (blocks w),
                 trace := trace w @ [DagResolve root (path_of [p]), DagGet root [],
                    DagPut (JObj (AList.update p (JObj (AList.update k X inner)) kvs))]\<rparr>))
       \<and> (map_of kvs p = None \<and> resolve_strict a \<longrightarrow>
            putPath a w root (path_of [p, k]) X opts =
              (Inl BlockStoreError, w\<lparr>trace := trace w @ [DagResolve root (path_of [p])]\<rparr>))
       \<and> (map_of kvs p = None \<and> \<not> resolve_strict a \<and> \<not> built_in (js a) (JObj kvs) p \<longrightarrow>
            putPath a w root (path_of [p, k]) X opts =
              (Inl JsTypeError,
               w\<lparr>trace := trace w @ [DagResolve root (path_of [p]), DagGet root []]\<rparr>))"
proof -
  have segs: "list_all segment ([p] @ [k])" using assms(1,2) by simp
  have amb: "list_all (\<lambda>x. \<not> starts_with x k) [p]" using assms(3) by simp
  have pp: "parentPath (path_of [p, k]) = path_of [p]"
    using parentPath_path_of [OF segs amb] by simp
  have lp: "lastPathSegment (path_of [p, k]) = k"
    using lastPathSegment_path_of [OF segs] by simp
  have rp: "resolve_path s (blocks w) root (CHR ''/'' # p) = resolve_walk s (blocks w) root [p]"
    for s
    using resolve_path_path_of [of "[p]"] assms(1) by simp
  have pne: "p \<noteq> []" using assms(1) by (simp add: segment_def)
  note rem = js_replace_remainder [OF assms(1)]
  note edit = putInnerPath_nested [OF assms(1,2)]
  show ?thesis
  proof (intro conjI impI)
    assume inner: "map_of kvs p = Some (JObj inner) \<and> assignable (js a) (JObj inner) k"
    have "putPath a w root (path_of [p, k]) X opts =
           (case pin_blocks a
                   (w\<lparr>blocks :=
                        insert (CID (compact (written (block_of root) p (written (JObj inner) k X))))
                          (blocks w),
                      trace := trace w @ [DagResolve root (path_of [p]), DagGet root [],
                          DagPut (compact (written (block_of root) p (written (JObj inner) k X)))]\<rparr>)
                   (compact (written (block_of root) p (written (JObj inner) k X))) [] opts of
              (Inl e, w') \<Rightarrow> (Inl e, w')
            | (Inr u, w') \<Rightarrow>
                (Inr (CID (compact (written (block_of root) p (written (JObj inner) k X)))), w'))"
      using assms inner
      by (intro putPath_inline) (simp_all add: firm_def fits_def)
    then show "putPath a w root (path_of [p, k]) X opts =
        (Inr (CID (JObj (AList.update p (JObj (AList.update k X inner)) kvs))),
         w\<lparr>blocks := insert (CID (JObj (AList.update p (JObj (AList.update k X inner)) kvs)))
              (blocks w),
           trace := trace w @ [DagResolve root (path_of [p]), DagGet root [],
              DagPut (JObj (AList.update p (JObj (AList.update k X inner)) kvs))]\<rparr>)"
      using assms(5,11) by (simp add: written_def compact_def pin_blocks_def)
  next
    assume missing: "map_of kvs p = None \<and> resolve_strict a"
    have body: "putPath_body a w root (path_of [p, k]) X opts =
        (Inl BlockStoreError, w\<lparr>trace := trace w @ [DagResolve root (path_of [p])]\<rparr>)"
      unfolding putPath_body_def pp
      using assms(4,5,9) missing
      by (simp add: dag_resolve_def rp emit_def Let_def)
    show "putPath a w root (path_of [p, k]) X opts =
        (Inl BlockStoreError, w\<lparr>trace := trace w @ [DagResolve root (path_of [p])]\<rparr>)"
      by (subst putPath.simps, unfold body) simp
  next
    assume missing: "map_of kvs p = None \<and> \<not> resolve_strict a \<and> \<not> built_in (js a) (JObj kvs) p"
    have body: "putPath_body a w root (path_of [p, k]) X opts =
        (Inl JsTypeError,
         w\<lparr>trace := trace w @ [DagResolve root (path_of [p]), DagGet root []]\<rparr>)"
      unfolding putPath_body_def pp lp
      using assms(4,5,7,9,10,11) missing pne
      by (simp add: dag_resolve_def rp dag_get_def path_parts_def emit_def edit_node_def
          edit [unfolded append_Cons append_Nil] rem js_prop_def built_in_def is_nullish_def
          Let_def del: js_replace.simps)
    show "putPath a w root (path_of [p, k]) X opts =
        (Inl JsTypeError,
         w\<lparr>trace := trace w @ [DagResolve root (path_of [p]), DagGet root []]\<rparr>)"
      by (subst putPath.simps, unfold body) simp
  qed
qed

theorem putPath_inline_parent_witness:
  "fst (putPath example_api (fresh_world {CID inline_root}) (CID inline_root) ''/a/c'' (JNum 5) no_opts)
     = Inr (CID (JObj [(''a'', JObj [(''b'', JNum 1), (''c'', JNum 5)])]))
   \<and> putPath example_api (fresh_world {CID inline_root}) (CID inline_root) ''/x/c'' (JNum 5) no_opts
     = (Inl JsTypeError,
        (fresh_world {CID inline_root})
          \<lparr>trace := [DagResolve (CID inline_root) ''/x'', DagGet (CID inline_root) []]\<rparr>)
   \<and> putPath strict_api (fresh_world {CID inline_root}) (CID inline_root) ''/x/c'' (JNum 5) no_opts
     = (Inl BlockStoreError,
        (fresh_world {CID inline_root})\<lparr>trace := [DagResolve (CID inline_root) ''/x'']\<rparr>)"
  using putPath_inline_parent [of "''a''" "''c''" "CID inline_root" "fresh_world {CID inline_root}"
      "[(''a'', JObj [(''b'', JNum 1)])]" "JNum 5" no_opts "[(''b'', JNum 1)]" example_api]
    putPath_inline_parent [of "''x''" "''c''" "CID inline_root" "fresh_world {CID inline_root}"
      "[(''a'', JObj [(''b'', JNum 1)])]" "JNum 5" no_opts "[]" example_api]
    putPath_inline_parent [of "''x''" "''c''" "CID inline_root" "fresh_world {CID inline_root}"
      "[(''a'', JObj [(''b'', JNum 1)])]" "JNum 5" no_opts "[]" strict_api]
  by (simp add: segment_def starts_with_def inline_root_def fresh_world_def is_nullish_def
      configured_def no_opts_def assignable_def built_in_def strict_api_def example_api_def
      example_engine_def object_prototype_names_def)

text \<open>
  C4 as stated fails on the empty root: setting \<^verbatim>\<open>/a/b\<close> leaves the container \<^verbatim>\<open>a\<close>
  missing. \<^verbatim>\<open>putInnerPath\<close> on the empty node throws instead of creating it, and so does
  \<^verbatim>\<open>putPath\<close>, after either resolver, with nothing added to the store.
\<close>

theorem putPath_missing_container_fails:
  "putInnerPath example_engine (JObj []) ''/a/b'' (JNum 5) = Inl JsTypeError
   \<and> putPath example_api (fresh_world {CID (JObj [])}) (CID (JObj [])) ''/a/b'' (JNum 5) no_opts
     = (Inl JsTypeError,
        (fresh_world {CID (JObj [])})
          \<lparr>trace := [DagResolve (CID (JObj [])) ''/a'', DagGet (CID (JObj [])) []]\<rparr>)
   \<and> putPath strict_api (fresh_world {CID (JObj [])}) (CID (JObj [])) ''/a/b'' (JNum 5) no_opts
     = (Inl BlockStoreError,
        (fresh_world {CID (JObj [])})\<lparr>trace := [DagResolve (CID (JObj [])) ''/a'']\<rparr>)"
  by (simp add: putPath.simps strict_api_def eval_defs putInnerPath.simps Let_def)

section \<open>The parent schema\<close>

text \<open>
  C5. The fallback to a link works on the node that holds the leaf, but the new link
  is then written into the ancestors by the same compacting edit as in C1. With the
  item \<^verbatim>\<open>{k: "old"}\<close> linked at index 1 of the root \<^verbatim>\<open>[0, link]\<close> and a \<open>parentSchema\<close>
  that rejects \<^verbatim>\<open>"big"\<close> inline and accepts a link, writing \<^verbatim>\<open>"big"\<close> at \<^verbatim>\<open>/1/k\<close> stores
  the leaf and the item with the link, and returns the root \<^verbatim>\<open>[link]\<close>: the entry \<^verbatim>\<open>0\<close>
  was filtered out, the item moved to index 0, and reading \<^verbatim>\<open>/1/k\<close> back gives
  \<^verbatim>\<open>undefined\<close>, not the leaf.
\<close>

theorem link_fallback_under_array_is_not_read_back:
  "fst (putPath link_only_api (fresh_world {CID list_root, CID list_item}) (CID list_root)
          ''/1/k'' (JStr ''big'') item_opts)
     = Inr (CID (JArr [JLink (CID (JObj [(''k'', JLink (CID (JStr ''big'')))]))]))
   \<and> CID (JStr ''big'')
       \<in> blocks (snd (putPath link_only_api (fresh_world {CID list_root, CID list_item})
            (CID list_root) ''/1/k'' (JStr ''big'') item_opts))
   \<and> CID (JObj [(''k'', JLink (CID (JStr ''big'')))])
       \<in> blocks (snd (putPath link_only_api (fresh_world {CID list_root, CID list_item})
            (CID list_root) ''/1/k'' (JStr ''big'') item_opts))
   \<and> fst (get link_only_api
            (snd (putPath link_only_api (fresh_world {CID list_root, CID list_item})
               (CID list_root) ''/1/k'' (JStr ''big'') item_opts))
            (CID (JArr [JLink (CID (JObj [(''k'', JLink (CID (JStr ''big'')))]))]))
            ''/1/k'' None) = Inr JUndefined"
  by (simp add: list_root_def list_item_def link_only_api_def item_opts_def putPath.simps
      eval_defs putInnerPath.simps get_def Let_def)

section \<open>The leaf schema\<close>

text \<open>
  C6. When \<open>leafSchema\<close> is configured and the transform of the value to its
  representation is \<^verbatim>\<open>undefined\<close>, \<^verbatim>\<open>putPath\<close> throws at once: the world is the one it
  started from, so no block was read or written and nothing was uploaded. This holds
  for every value, null or not.
\<close>

theorem putPath_rejects_leaf_before_io:
  "configured (leafSchema opts) \<Longrightarrow>
   toRepresentation a (the (leafSchema opts)) data = JUndefined \<Longrightarrow>
   putPath a w root path data opts = (Inl InvalidLeafData, w)"
  by (simp add: putPath.simps putPath_body_def)

theorem putPath_rejects_leaf_before_io_witness:
  "putPath (example_api\<lparr>toRepresentation := \<lambda>s v. JUndefined\<rparr>) (fresh_world {CID (JObj [])})
      (CID (JObj [])) ''/a'' (JNum 5) (no_opts\<lparr>leafSchema := Some ''Parcel''\<rparr>)
    = (Inl InvalidLeafData, fresh_world {CID (JObj [])})"
  using putPath_rejects_leaf_before_io [of "no_opts\<lparr>leafSchema := Some ''Parcel''\<rparr>"
      "example_api\<lparr>toRepresentation := \<lambda>s v. JUndefined\<rparr>" "JNum 5"
      "fresh_world {CID (JObj [])}" "CID (JObj [])" "''/a''"]
  by (simp add: configured_def no_opts_def example_api_def)

section \<open>Writing and reading back\<close>

text \<open>
  C7, as the code has it. Take a value that is not null, can be encoded and is not
  itself a link, and \<^verbatim>\<open>putPath\<close> without schemas, every requested upload succeeding.
  Writing the value and reading the same path from the new root with \<^verbatim>\<open>get\<close> returns
  the value in two cases. First, the path has one or more segments, none of which
  begins with the name of a later one; every node along it is held in a block of its
  own, linked from its parent under an entry that the compaction leaves in place (a
  field of an object, or an index of a sequence with no falsy entry before it); and
  the last node stores the value under the last segment and keeps it in place: the
  segment is a stored field or not a built-in name, or an index within a sequence or at
  its end, with no falsy entry before it and a truthy value. Second, the path is
  \<^verbatim>\<open>/p/k\<close> and the root node holds under \<open>p\<close>, an entry that the compaction leaves in
  place, a container that is not a link and that stores the value under \<open>k\<close> without
  leaving a hole.
\<close>

theorem put_get_round_trip:
  assumes "\<not> is_nullish X" and "encodable X" and "\<forall>c. X \<noteq> JLink c"
    and "\<not> configured (leafSchema opts)" and "\<not> configured (parentSchema opts)"
    and "uploads_succeed a opts"
  shows "(list_all segment (ks @ [k]) \<and> unambiguous (ks @ [k])
            \<and> block_chain (blocks w) root ks \<and> firm_chain root ks
            \<and> assignable (js a) (block_of (chain_end root ks)) k
            \<and> in_place (block_of (chain_end root ks)) k X
          \<longrightarrow> (\<exists>newRoot w'. putPath a w root (path_of (ks @ [k])) X opts = (Inr newRoot, w')
                 \<and> fst (get a w' newRoot (path_of (ks @ [k])) None) = Inr X))
       \<and> (segment p \<and> segment k \<and> \<not> starts_with p k
            \<and> root \<in> blocks w \<and> encodable (block_of root) \<and> firm (block_of root) p
            \<and> own_prop (block_of root) p = Some inner \<and> (\<forall>c. inner \<noteq> JLink c)
            \<and> assignable (js a) inner k \<and> fits inner k
          \<longrightarrow> (\<exists>newRoot w'. putPath a w root (path_of [p, k]) X opts = (Inr newRoot, w')
                 \<and> fst (get a w' newRoot (path_of [p, k]) None) = Inr X))"
proof (intro conjI impI)
  let ?node = "block_of (chain_end root ks)"
  let ?nv = "written ?node k X"
  assume h: "list_all segment (ks @ [k]) \<and> unambiguous (ks @ [k])
            \<and> block_chain (blocks w) root ks \<and> firm_chain root ks
            \<and> assignable (js a) ?node k \<and> in_place ?node k X"
  have node: "encodable ?node"
    using h block_chain_resolve by blast
  have edit: "(if is_nullish X then js_delete (js a) ?node k else js_set (js a) ?node k X)
              = Inr ?nv"
    using h assms(1) assignable_set by simp
  have enc: "encodable (compact ?nv)"
    using node assms(2) h by (intro encodable_written [of _ _ "js a"]) simp_all
  have own: "own_prop (compact ?nv) k = Some X"
    using h assms(1) compact_written_own [of "js a" ?node k X] by (auto simp: is_nullish_def)
  from h putPath_chain [of ks k w root X a ?nv opts, OF _ _ _ edit enc assms(4-6)]
  obtain r w' where put: "putPath a w root (path_of (ks @ [k])) X opts = (Inr r, w')"
    and r: "r \<in> blocks w'"
    and walk: "get_walk (blocks w') (block_of r) ks = Inr (compact ?nv)"
    by blast
  have "settle (blocks w') X = Inr X"
    using assms(3) by (cases X) (simp_all add: settle_def)
  then have "get_walk (blocks w') (block_of r) (ks @ [k]) = Inr X"
    using walk own by (simp only: get_walk_append [of _ _ ks] get_walk_single) simp
  with h have "fst (get a w' r (path_of (ks @ [k])) None) = Inr X"
    using get_reads_walk [OF r] by blast
  with put show "\<exists>newRoot w'. putPath a w root (path_of (ks @ [k])) X opts = (Inr newRoot, w')
                 \<and> fst (get a w' newRoot (path_of (ks @ [k])) None) = Inr X"
    by blast
next
  let ?inner = "written inner k X"
  let ?root = "compact (written (block_of root) p ?inner)"
  let ?w4 = "w\<lparr>blocks := insert (CID ?root) (blocks w),
               trace := trace w @ [DagResolve root (path_of [p]), DagGet root [], DagPut ?root]\<rparr>"
  assume h: "segment p \<and> segment k \<and> \<not> starts_with p k
            \<and> root \<in> blocks w \<and> encodable (block_of root) \<and> firm (block_of root) p
            \<and> own_prop (block_of root) p = Some inner \<and> (\<forall>c. inner \<noteq> JLink c)
            \<and> assignable (js a) inner k \<and> fits inner k"
  obtain w' where pin: "pin_blocks a ?w4 ?root [] opts = (Inr (), w')"
    and w': "blocks w' = blocks ?w4"
    using pin_blocks_ok [OF assms(6)] by metis
  have "putPath a w root (path_of [p, k]) X opts =
          (case pin_blocks a ?w4 ?root [] opts of
             (Inl e, w') \<Rightarrow> (Inl e, w')
           | (Inr u, w') \<Rightarrow> (Inr (CID ?root), w'))"
    using h assms(1,2,4,5) by (intro putPath_inline) simp_all
  then have put: "putPath a w root (path_of [p, k]) X opts = (Inr (CID ?root), w')"
    unfolding pin by simp
  have cont: "js_truthy ?inner" "?inner \<noteq> JUndefined" "\<forall>c. ?inner \<noteq> JLink c"
    using h assignable_container by blast+
  have inp: "in_place (block_of root) p ?inner"
    using h cont(1) in_place_container by blast
  have own1: "own_prop ?root p = Some ?inner"
    using h own_assignable [of "block_of root" p inner "js a"] inp cont(2)
    by (intro compact_written_own [of "js a"]) simp_all
  have own2: "own_prop ?inner k = Some X"
    using h assms(1) written_own [of "js a" inner k X] by (auto simp: is_nullish_def)
  have sX: "settle (blocks w') X = Inr X"
    using assms(3) by (cases X) (simp_all add: settle_def)
  have "get_walk (blocks w') ?root [p, k] = get_walk (blocks w') ?inner [k]"
    using own1 cont(3) by (cases ?inner) simp_all
  then have "get_walk (blocks w') (block_of (CID ?root)) [p, k] = Inr X"
    using own2 sX by (simp only: get_walk_single block_of.simps) simp
  moreover have "CID ?root \<in> blocks w'" using w' by simp
  ultimately have "fst (get a w' (CID ?root) (path_of [p, k]) None) = Inr X"
    using h get_reads_walk [of "CID ?root" w' "[p, k]" X a] by simp
  with put show "\<exists>newRoot w'. putPath a w root (path_of [p, k]) X opts = (Inr newRoot, w')
                 \<and> fst (get a w' newRoot (path_of [p, k]) None) = Inr X"
    by blast
qed

theorem put_get_round_trip_witness:
  "(\<exists>newRoot w'.
     putPath example_api (fresh_world {CID tree_root, CID tree_mid, CID tree_leaf}) (CID tree_root)
       ''/a/b/c'' (JNum 5) no_opts = (Inr newRoot, w')
     \<and> fst (get example_api w' newRoot ''/a/b/c'' None) = Inr (JNum 5))
   \<and> (\<exists>newRoot w'.
     putPath example_api (fresh_world {CID link_list, CID parcel_node, CID list_item})
       (CID link_list) ''/1/k'' (JNum 5) no_opts = (Inr newRoot, w')
     \<and> fst (get example_api w' newRoot ''/1/k'' None) = Inr (JNum 5))
   \<and> (\<exists>newRoot w'.
     putPath example_api (fresh_world {CID inline_root}) (CID inline_root) ''/a/c'' (JNum 5)
       no_opts = (Inr newRoot, w')
     \<and> fst (get example_api w' newRoot ''/a/c'' None) = Inr (JNum 5))"
  using put_get_round_trip [of "JNum 5" no_opts example_api "[''a'', ''b'']" "''c''"
      "fresh_world {CID tree_root, CID tree_mid, CID tree_leaf}" "CID tree_root"
      "''a''" "JObj [(''b'', JLink (CID tree_leaf))]"]
    put_get_round_trip [of "JNum 5" no_opts example_api "[''1'']" "''k''"
      "fresh_world {CID link_list, CID parcel_node, CID list_item}" "CID link_list"
      "''1''" "JObj []"]
    put_get_round_trip [of "JNum 5" no_opts example_api "[]" "''c''"
      "fresh_world {CID inline_root}" "CID inline_root"
      "''a''" "JObj [(''b'', JNum 1)]"]
  by (simp add: segment_def starts_with_def tree_defs fresh_world_def is_nullish_def
      configured_def no_opts_def uploads_succeed_def assignable_def in_place_def firm_def
      fits_def built_in_def example_api_def example_engine_def object_prototype_names_def link_list_def
      list_item_def parcel_node_def inline_root_def array_index_def is_digit_def
      digits_value_def)

text \<open>
  C7 as stated fails at the root path: \<^verbatim>\<open>putInnerPath\<close> returns the node unchanged for
  \<^verbatim>\<open>/\<close> ("Base case, no path or root"), so writing 5 at \<^verbatim>\<open>/\<close> returns the root it was
  given, and reading \<^verbatim>\<open>/\<close> from it returns the old node, not 5.
\<close>

theorem put_at_root_path_is_not_read_back:
  "fst (putPath example_api (fresh_world {CID parcel_node}) (CID parcel_node) ''/'' (JNum 5)
          no_opts) = Inr (CID parcel_node)
   \<and> fst (get example_api
            (snd (putPath example_api (fresh_world {CID parcel_node}) (CID parcel_node) ''/''
               (JNum 5) no_opts))
            (CID parcel_node) ''/'' None) = Inr (JObj [(''name'', JStr ''parcel'')])"
  by (simp add: parcel_node_def putPath.simps eval_defs putInnerPath.simps get_def Let_def)

section \<open>Retrieval failures\<close>

text \<open>
  C8, as the code has it. When the local lookup fails and the gateway is not configured
  or fails too, \<^verbatim>\<open>get\<close> does not throw: it returns \<^verbatim>\<open>undefined\<close>, passed through
  \<^verbatim>\<open>toTyped\<close> when a schema is given, and stores nothing. A warning is logged when the
  gateway was tried and failed; without a gateway the message is \<^verbatim>\<open>console.info\<close>.
\<close>

theorem get_absorbs_retrieval_failure:
  assumes "fst (dag_get w root path) = Inl e"
    and "configured (ipfsGatewayHost a) \<longrightarrow>
           gateway_fetch a (the (ipfsGatewayHost a)) root path = None"
  shows "fst (get a w root path schema)
           = Inr (if configured schema then toTyped a (the schema) JUndefined else JUndefined)
         \<and> blocks (snd (get a w root path schema)) = blocks w
         \<and> trace (snd (get a w root path schema))
             = trace w @ DagGet root path #
                 (if configured (ipfsGatewayHost a)
                  then [Console LogDebug, GatewayGet (the (ipfsGatewayHost a)) root path,
                        Console LogWarn]
                  else [Console LogInfo])"
proof -
  have dg: "dag_get w root path = (Inl e, emit (DagGet root path) w)"
    using assms(1) by (simp add: dag_get_def)
  show ?thesis
    using assms(2) by (simp add: get_def dg emit_def)
qed

theorem get_absorbs_retrieval_failure_witness:
  "fst (get (example_api\<lparr>ipfsGatewayHost := Some ''https://gateway''\<rparr>) (fresh_world {})
          (CID (JObj [])) ''a'' None) = Inr JUndefined
   \<and> trace (snd (get (example_api\<lparr>ipfsGatewayHost := Some ''https://gateway''\<rparr>)
          (fresh_world {}) (CID (JObj [])) ''a'' None))
      = [DagGet (CID (JObj [])) ''a'', Console LogDebug,
         GatewayGet ''https://gateway'' (CID (JObj [])) ''a'', Console LogWarn]"
  using get_absorbs_retrieval_failure [of "fresh_world {}" "CID (JObj [])" "''a''"
      BlockStoreError "example_api\<lparr>ipfsGatewayHost := Some ''https://gateway''\<rparr>" None]
  by (simp add: dag_get_def emit_def configured_def example_api_def fresh_world_def)

text \<open>
  C8 as stated fails where no gateway is configured: the local lookup fails, \<^verbatim>\<open>get\<close>
  returns \<^verbatim>\<open>undefined\<close>, and no warning is among the calls made.
\<close>

theorem get_without_gateway_logs_no_warning:
  "fst (dag_get (fresh_world {}) (CID (JObj [])) ''a'') = Inl BlockStoreError \<and>
   ipfsGatewayHost example_api = None \<and>
   fst (get example_api (fresh_world {}) (CID (JObj [])) ''a'' None) = Inr JUndefined \<and>
   Console LogWarn \<notin> set (trace (snd (get example_api (fresh_world {}) (CID (JObj [])) ''a'' None)))"
  by (simp add: get_def dag_get_def emit_def configured_def example_api_def fresh_world_def)

section \<open>Resolving the root\<close>

text \<open>
  C9. \<^verbatim>\<open>resolveRoot\<close> asks the pointer service for the owner as supplied. If that
  document has a root, the root is parsed and returned. If not, the service is asked
  again for the lower-cased owner, and that document's root is returned if it has one.
  In both cases these queries are the only calls and the block store is as it was. If
  neither document has a root, the result is the CID of the empty node, which the last
  call, a \<^verbatim>\<open>dag.put\<close>, has added to the block store. No update is sent to the pointer
  service, whose documents are never changed.
\<close>

theorem resolveRoot_fallback_chain:
  fixes a :: api and w :: world and opts :: parcel_opts
  defines "r \<equiv> resolveRoot a w opts"
    and "d1 \<equiv> content_field (docs w (ownerDID opts) (parcelId opts)) ''/''"
    and "d2 \<equiv> content_field (docs w (toLowerCase (ownerDID opts)) (parcelId opts)) ''/''"
  shows "(js_truthy d1 \<longrightarrow>
            fst r = parse_root a d1 \<and>
            trace (snd r) = trace w @ [TileQuery (ownerDID opts) (parcelId opts)] \<and>
            blocks (snd r) = blocks w)
       \<and> (\<not> js_truthy d1 \<and> js_truthy d2 \<longrightarrow>
            fst r = parse_root a d2 \<and>
            trace (snd r) = trace w @ [TileQuery (ownerDID opts) (parcelId opts),
                                       TileQuery (toLowerCase (ownerDID opts)) (parcelId opts)] \<and>
            blocks (snd r) = blocks w)
       \<and> (\<not> js_truthy d1 \<and> \<not> js_truthy d2 \<longrightarrow>
            fst r = Inr (CID (JObj [])) \<and>
            block_of (CID (JObj [])) = JObj [] \<and>
            trace (snd r) = trace w @ [TileQuery (ownerDID opts) (parcelId opts),
                                       TileQuery (toLowerCase (ownerDID opts)) (parcelId opts),
                                       DagPut (JObj [])] \<and>
            blocks (snd r) = insert (CID (JObj [])) (blocks w))
       \<and> docs (snd r) = docs w"
  unfolding r_def d1_def d2_def
  by (auto simp: resolveRoot_def tile_query_def emit_def dag_put_def stored_form_def
      parse_root_def Let_def split: option.splits)

theorem resolveRoot_fallback_chain_witness:
  "fst (resolveRoot example_api lowercase_world parcel_7) = Inr (CID parcel_node)
   \<and> trace (snd (resolveRoot example_api lowercase_world parcel_7))
        = [TileQuery ''0xABC'' ''7'', TileQuery ''0xabc'' ''7'']
   \<and> blocks (snd (resolveRoot example_api lowercase_world parcel_7)) = {}
   \<and> fst (resolveRoot example_api (fresh_world {}) parcel_7) = Inr (CID (JObj []))
   \<and> trace (snd (resolveRoot example_api (fresh_world {}) parcel_7))
        = [TileQuery ''0xABC'' ''7'', TileQuery ''0xabc'' ''7'', DagPut (JObj [])]
   \<and> blocks (snd (resolveRoot example_api (fresh_world {}) parcel_7)) = {CID (JObj [])}
   \<and> docs (snd (resolveRoot example_api (fresh_world {}) parcel_7)) = docs (fresh_world {})"
  using resolveRoot_fallback_chain [of lowercase_world parcel_7 example_api]
    resolveRoot_fallback_chain [of "fresh_world {}" parcel_7 example_api]
  by (simp add: lowercase_world_def parcel_7_def fresh_world_def example_api_def
      content_field_def parse_root_def toLowerCase_def lower_char_def char_of_def bit_0)

text \<open>
  C10. When neither document has a root, \<^verbatim>\<open>resolveRoot\<close> is not read-only: its last
  call is the \<^verbatim>\<open>dag.put\<close> of the empty node, which is in the block store afterwards.
  The documents of the pointer service are unchanged and no update was sent to it.
\<close>

theorem resolveRoot_writes_empty_node:
  assumes "\<not> js_truthy (content_field (docs w (ownerDID opts) (parcelId opts)) ''/'')"
    and "\<not> js_truthy
           (content_field (docs w (toLowerCase (ownerDID opts)) (parcelId opts)) ''/'')"
  shows "blocks (snd (resolveRoot a w opts)) = insert (CID (JObj [])) (blocks w)
       \<and> last (trace (snd (resolveRoot a w opts))) = DagPut (JObj [])
       \<and> docs (snd (resolveRoot a w opts)) = docs w
       \<and> (\<forall>c t v. TileUpdate c t v \<in> set (trace (snd (resolveRoot a w opts)))
             \<longrightarrow> TileUpdate c t v \<in> set (trace w))"
  using assms
  by (auto simp: resolveRoot_def tile_query_def emit_def dag_put_def stored_form_def Let_def)

theorem resolveRoot_writes_empty_node_witness:
  "blocks (snd (resolveRoot example_api (fresh_world {}) parcel_7)) = {CID (JObj [])}
   \<and> last (trace (snd (resolveRoot example_api (fresh_world {}) parcel_7))) = DagPut (JObj [])
   \<and> docs (snd (resolveRoot example_api (fresh_world {}) parcel_7)) = docs (fresh_world {})"
  using resolveRoot_writes_empty_node [of "fresh_world {}" parcel_7 example_api]
  by (simp add: fresh_world_def parcel_7_def content_field_def)

end
